theory Spec2Isabelle
  imports Main "HOL-Library.Word" "HOL-Library.List_Lexorder" "HOL-Library.Product_Lexorder"
begin

section \<open>Go runtime outcomes\<close>

text \<open>
  A Go call either returns or panics. The panics of the modelled code are the explicit
  \<^verbatim>\<open>panic("duplicate topics developer error")\<close> of \<^verbatim>\<open>MemoryJournal.Topic\<close>, the
  \<^verbatim>\<open>panic(err)\<close> of \<^verbatim>\<open>MemoryWriter.Write\<close>, the runtime's index-out-of-range panic and
  the nil dereference.
\<close>

datatype iface = IString string | IInt int | IBool bool

datatype journal_error = DanglingField iface | KeyNotString

datatype panic =
    PanicDuplicateTopics
  | PanicJournalError journal_error
  | PanicIndexOutOfRange
  | PanicNilDereference

datatype 'a outcome = Panics panic | Returns 'a

section \<open>Package journal: the in-memory journal\<close>

text \<open>
  The clock collaborator is represented by the Unix time its \<^verbatim>\<open>Now()\<close> reports (the
  test uses a fake clock fixed at one instant).
\<close>

type_synonym Clock = int

record entry =
  ent_time :: int
  ent_event :: string
  ent_kvs :: "string \<rightharpoonup> iface"

record MemoryWriter =
  mw_clock :: Clock
  mw_topic :: string
  mw_entries :: "entry list"

text \<open>
  \<^verbatim>\<open>MemoryJournal.writers\<close> is a slice of pointers to writers, and \<^verbatim>\<open>Topic\<close> hands the
  same pointer to its caller. Writers live in an explicit heap (an address is an index
  into it; allocation appends), and the journal and the callers hold addresses.
\<close>

record MemoryJournal =
  mj_clock :: Clock
  mj_topics :: "string set"
  mj_writers :: "nat list"

record journal_state =
  heap :: "MemoryWriter list"
  journal :: MemoryJournal

definition NewInMemoryJournal :: "Clock \<Rightarrow> journal_state" where
  "NewInMemoryJournal clk =
     \<lparr>heap = [], journal = \<lparr>mj_clock = clk, mj_topics = {}, mj_writers = []\<rparr>\<rparr>"

definition Topic :: "string \<Rightarrow> journal_state \<Rightarrow> (nat \<times> journal_state) outcome" where
  "Topic tp s =
     (if tp \<in> mj_topics (journal s) then Panics PanicDuplicateTopics
      else
        let mr = \<lparr>mw_clock = mj_clock (journal s), mw_topic = tp, mw_entries = []\<rparr>;
            a = length (heap s)
        in Returns (a, s\<lparr>heap := heap s @ [mr],
                          journal := (journal s)\<lparr>mj_writers := mj_writers (journal s) @ [a]\<rparr>\<rparr>))"

fun extractLoop :: "iface list \<Rightarrow> (string \<rightharpoonup> iface) \<Rightarrow> journal_error + (string \<rightharpoonup> iface)" where
  "extractLoop [] out = Inr out"
| "extractLoop [k] out = Inl (DanglingField k)"
| "extractLoop (k # v # rest) out =
     (case k of
        IString keyStr \<Rightarrow> extractLoop rest (out(keyStr \<mapsto> v))
      | _ \<Rightarrow> Inl KeyNotString)"

text \<open>The nil map returned for no arguments reads as the empty map.\<close>

definition extractKeyValues :: "iface list \<Rightarrow> journal_error + (string \<rightharpoonup> iface)" where
  "extractKeyValues kvs =
     (if length kvs = 0 then Inr Map.empty
      else if length kvs = 1 then Inl (DanglingField (hd kvs))
      else extractLoop kvs Map.empty)"

definition Write :: "nat \<Rightarrow> string \<Rightarrow> iface list \<Rightarrow> journal_state \<Rightarrow> journal_state outcome" where
  "Write mw ev kvs s =
     (if \<not> mw < length (heap s) then Panics PanicNilDereference
      else
        let w = heap s ! mw in
        case extractKeyValues kvs of
          Inl err \<Rightarrow> Panics (PanicJournalError err)
        | Inr extracted \<Rightarrow>
            Returns (s\<lparr>heap := (heap s)[mw := w\<lparr>mw_entries := mw_entries w @
                        [\<lparr>ent_time = mw_clock w, ent_event = ev, ent_kvs = extracted\<rparr>]\<rparr>]\<rparr>))"

text \<open>
  The states a program can reach: it starts from \<^verbatim>\<open>NewInMemoryJournal\<close> and calls
  \<^verbatim>\<open>Topic\<close> and \<^verbatim>\<open>Write\<close> (the fields are unexported, so nothing outside the package
  writes them).
\<close>

inductive reachable :: "journal_state \<Rightarrow> bool" where
  reach_new: "reachable (NewInMemoryJournal clk)"
| reach_topic: "reachable s \<Longrightarrow> Topic tp s = Returns (a, s') \<Longrightarrow> reachable s'"
| reach_write: "reachable s \<Longrightarrow> Write mw ev kvs s = Returns s' \<Longrightarrow> reachable s'"

section \<open>Package types: blocks and tipsets\<close>

type_synonym uint64 = "64 word"
type_synonym Cid = "8 word list"
type_synonym TipSetKey = "Cid list"
type_synonym Address = string
type_synonym MessageReceipt = nat

definition cid_Undef :: Cid where
  "cid_Undef = []"

record SignedMessage =
  msg_from :: Address
  msg_nonce :: uint64

text \<open>
  \<^verbatim>\<open>Block.Cid()\<close> hashes the block's content; the hash is carried as a field.
  \<^verbatim>\<open>Messages\<close> and \<^verbatim>\<open>MessageReceipts\<close> are the CIDs the syncer hands to the message
  provider.
\<close>

record Block =
  blk_cid :: Cid
  blk_miner :: Address
  blk_ticket :: "8 word list"
  blk_parents :: TipSetKey
  blk_parentWeight :: uint64
  blk_height :: uint64
  blk_messages :: Cid
  blk_messageReceipts :: Cid
  blk_stateRoot :: Cid
  blk_timestamp :: uint64

datatype error =
    ErrChainHasBadTipSet
  | ErrNewChainTooLong
  | ErrUnexpectedStoreState
  | ErrUndefTipSet
  | ErrNoBlocks
  | ErrInconsistentHeights
  | ErrInconsistentParents
  | ErrInconsistentParentWeights
  | ErrDuplicateBlocks
  | ErrNotInStore TipSetKey
  | ErrLoadingMessages error
  | ErrLoadingReceipts error
  | ErrCollaborator nat
  | NonceMismatch uint64 uint64
  | ErrNonceNotIncreasing

text \<open>
  A tipset holds its blocks in canonical order; \<^verbatim>\<open>UndefTipSet\<close> is the zero value, with
  no blocks.
\<close>

datatype TipSet = TipSet (ts_blocks: "Block list")

definition UndefTipSet :: TipSet where
  "UndefTipSet = TipSet []"

definition Defined :: "TipSet \<Rightarrow> bool" where
  "Defined ts = (length (ts_blocks ts) > 0)"

definition Len :: "TipSet \<Rightarrow> nat" where
  "Len ts = length (ts_blocks ts)"

text \<open>
  Modelled from the spec: \<^verbatim>\<open>types.TipSet\<close> (its file is not among the sources). The key
  is the sorted set of the constituent block CIDs; \<^verbatim>\<open>Equals\<close> is structural over the
  key; \<^verbatim>\<open>String()\<close> prints the key, so two tipsets print alike exactly when their keys
  are equal, and the printed form is represented by the key itself. \<^verbatim>\<open>Parents()\<close> and
  \<^verbatim>\<open>Height()\<close> return the shared values and fail on the undefined tipset.
\<close>

definition Key :: "TipSet \<Rightarrow> TipSetKey" where
  "Key ts = sort (map blk_cid (ts_blocks ts))"

definition Equals :: "TipSet \<Rightarrow> TipSet \<Rightarrow> bool" where
  "Equals a b = (Key a = Key b)"

definition String :: "TipSet \<Rightarrow> TipSetKey" where
  "String ts = Key ts"

definition Parents :: "TipSet \<Rightarrow> error + TipSetKey" where
  "Parents ts = (case ts_blocks ts of [] \<Rightarrow> Inl ErrUndefTipSet | b # _ \<Rightarrow> Inr (blk_parents b))"

definition Height :: "TipSet \<Rightarrow> error + uint64" where
  "Height ts = (case ts_blocks ts of [] \<Rightarrow> Inl ErrUndefTipSet | b # _ \<Rightarrow> Inr (blk_height b))"

text \<open>
  Modelled from the spec: \<^verbatim>\<open>types.NewTipSet\<close>. Construction fails when the input blocks
  are empty, contain duplicates, or disagree on height, parent key or parent weight. The
  canonical block order is lexicographic by ticket, ties broken by the CID bytes.
\<close>

definition NewTipSet :: "Block list \<Rightarrow> error + TipSet" where
  "NewTipSet blks =
     (case blks of
        [] \<Rightarrow> Inl ErrNoBlocks
      | first # _ \<Rightarrow>
          if list_ex (\<lambda>b. blk_height b \<noteq> blk_height first) blks then Inl ErrInconsistentHeights
          else if list_ex (\<lambda>b. blk_parents b \<noteq> blk_parents first) blks then Inl ErrInconsistentParents
          else if list_ex (\<lambda>b. blk_parentWeight b \<noteq> blk_parentWeight first) blks
            then Inl ErrInconsistentParentWeights
          else if \<not> distinct (map blk_cid blks) then Inl ErrDuplicateBlocks
          else Inr (TipSet (sort_key (\<lambda>b. (blk_ticket b, blk_cid b)) blks)))"

section \<open>Package chain: the chain store and the bad-tipset cache\<close>

record TipSetAndState =
  tsas_TipSet :: TipSet
  tsas_TipSetStateRoot :: Cid

text \<open>
  Modelled from the spec: the chain store behind \<^verbatim>\<open>syncerChainReaderWriter\<close> (the
  interface is in the source, its implementation is not). The store keeps one record per
  tipset key, binding the tipset to its state root, and the key of the head. \<^verbatim>\<open>Put\<close> is
  idempotent; \<^verbatim>\<open>Get\<close> fails on a key that is not stored; \<^verbatim>\<open>SetHead\<close> on a key not
  present fails; the secondary index lists the stored tipsets sharing parents and
  height, here in the order they were stored. The index cannot file the undefined
  tipset, which has neither parents nor height, so \<^verbatim>\<open>Put\<close> fails on it.
\<close>

record Store =
  st_tsas :: "TipSetAndState list"
  st_head :: TipSetKey

definition GetHead :: "Store \<Rightarrow> TipSetKey" where
  "GetHead st = st_head st"

definition lookupKey :: "Store \<Rightarrow> TipSetKey \<Rightarrow> TipSetAndState option" where
  "lookupKey st k = find (\<lambda>e. Key (tsas_TipSet e) = k) (st_tsas st)"

definition GetTipSet :: "Store \<Rightarrow> TipSetKey \<Rightarrow> error + TipSet" where
  "GetTipSet st k = (case lookupKey st k of None \<Rightarrow> Inl (ErrNotInStore k) | Some e \<Rightarrow> Inr (tsas_TipSet e))"

definition GetTipSetStateRoot :: "Store \<Rightarrow> TipSetKey \<Rightarrow> error + Cid" where
  "GetTipSetStateRoot st k =
     (case lookupKey st k of None \<Rightarrow> Inl (ErrNotInStore k) | Some e \<Rightarrow> Inr (tsas_TipSetStateRoot e))"

definition HasTipSetAndState :: "Store \<Rightarrow> TipSetKey \<Rightarrow> bool" where
  "HasTipSetAndState st k = (lookupKey st k \<noteq> None)"

definition PutTipSetAndState :: "TipSetAndState \<Rightarrow> Store \<Rightarrow> error + Store" where
  "PutTipSetAndState tsas st =
     (if \<not> Defined (tsas_TipSet tsas) then Inl ErrUndefTipSet
      else if HasTipSetAndState st (Key (tsas_TipSet tsas)) then Inr st
      else Inr (st\<lparr>st_tsas := st_tsas st @ [tsas]\<rparr>))"

definition SetHead :: "TipSet \<Rightarrow> Store \<Rightarrow> error + Store" where
  "SetHead ts st =
     (if HasTipSetAndState st (Key ts) then Inr (st\<lparr>st_head := Key ts\<rparr>)
      else Inl (ErrNotInStore (Key ts)))"

definition GetTipSetAndStatesByParentsAndHeight ::
    "Store \<Rightarrow> TipSetKey \<Rightarrow> uint64 \<Rightarrow> error + TipSetAndState list" where
  "GetTipSetAndStatesByParentsAndHeight st pTsKey h =
     Inr (filter (\<lambda>e. Parents (tsas_TipSet e) = Inr pTsKey \<and> Height (tsas_TipSet e) = Inr h)
            (st_tsas st))"

definition HasTipSetAndStatesWithParentsAndHeight :: "Store \<Rightarrow> TipSetKey \<Rightarrow> uint64 \<Rightarrow> bool" where
  "HasTipSetAndStatesWithParentsAndHeight st pTsKey h =
     list_ex (\<lambda>e. Parents (tsas_TipSet e) = Inr pTsKey \<and> Height (tsas_TipSet e) = Inr h)
       (st_tsas st)"

text \<open>
  Modelled from the spec: \<^verbatim>\<open>badTipSetCache\<close> (the syncer holds one; its file is not
  among the sources). It is a set of tipset keys; \<^verbatim>\<open>Has\<close> is the membership test and
  \<^verbatim>\<open>AddChain\<close> inserts every key of the sequence.
\<close>

type_synonym badTipSetCache = "TipSetKey set"

definition bad_Has :: "badTipSetCache \<Rightarrow> TipSetKey \<Rightarrow> bool" where
  "bad_Has bad k = (k \<in> bad)"

definition AddChain :: "TipSet list \<Rightarrow> badTipSetCache \<Rightarrow> badTipSetCache" where
  "AddChain chain bad = bad \<union> set (map String chain)"

section \<open>Package chain: the syncer\<close>

text \<open>
  The collaborators the syncer is built from (\<^verbatim>\<open>NewSyncer\<close>): the fetcher, the message
  provider, the state evaluator and the chain selector, each a function that returns its
  result or an error. \<^verbatim>\<open>GetRecentAncestors\<close> (package chain) and
  \<^verbatim>\<open>consensus.AncestorRoundsNeeded\<close> are used by \<^verbatim>\<open>syncOne\<close> and defined outside the
  sources; they are parameters too. The fetcher is handed the callback that tells it
  where to stop.
\<close>

record ChainInfo =
  ci_Peer :: nat
  ci_Head :: TipSetKey
  ci_Height :: uint64

record Env =
  FetchTipSets :: "TipSetKey \<Rightarrow> nat \<Rightarrow> (TipSet \<Rightarrow> bool \<times> error option) \<Rightarrow> error + TipSet list"
  LoadMessages :: "Cid \<Rightarrow> error + SignedMessage list"
  LoadReceipts :: "Cid \<Rightarrow> error + MessageReceipt list"
  RunStateTransition :: "TipSet \<Rightarrow> SignedMessage list list \<Rightarrow> MessageReceipt list list \<Rightarrow>
                           TipSet list \<Rightarrow> uint64 \<Rightarrow> Cid \<Rightarrow> error + Cid"
  IsHeavier :: "TipSet \<Rightarrow> TipSet \<Rightarrow> Cid \<Rightarrow> Cid \<Rightarrow> error + bool"
  NewWeight :: "TipSet \<Rightarrow> Cid \<Rightarrow> error + uint64"
  GetRecentAncestors :: "TipSet \<Rightarrow> Store \<Rightarrow> int \<Rightarrow> error + TipSet list"
  AncestorRoundsNeeded :: nat

text \<open>
  The syncer's mutable state: the chain store and the bad-tipset cache. The mutex, the
  status reporter, the tracing span, the metrics and the log (with \<^verbatim>\<open>logReorg\<close>, which
  only reads the store and writes the log and a counter) change neither of them nor any
  returned value, and are left out.
\<close>

record Syncer =
  chainStore :: Store
  badTipSets :: badTipSetCache

definition UntrustedChainHeightLimit :: nat where
  "UntrustedChainHeightLimit = 600"

definition ExceedsUntrustedChainLength :: "uint64 \<Rightarrow> uint64 \<Rightarrow> bool" where
  "ExceedsUntrustedChainLength curHeight newHeight =
     (let maxChainLength = curHeight + word_of_nat UntrustedChainHeightLimit
      in newHeight > maxChainLength)"

text \<open>The loop of \<^verbatim>\<open>syncOne\<close> that gathers the messages and receipts of each block.\<close>

fun gatherMessages ::
    "Env \<Rightarrow> Block list \<Rightarrow> SignedMessage list list \<Rightarrow> MessageReceipt list list \<Rightarrow>
     error + (SignedMessage list list \<times> MessageReceipt list list)" where
  "gatherMessages env [] nextMessages nextReceipts = Inr (nextMessages, nextReceipts)"
| "gatherMessages env (blk # blks) nextMessages nextReceipts =
     (case LoadMessages env (blk_messages blk) of
        Inl err \<Rightarrow> Inl (ErrLoadingMessages err)
      | Inr msgs \<Rightarrow>
          (case LoadReceipts env (blk_messageReceipts blk) of
             Inl err \<Rightarrow> Inl (ErrLoadingReceipts err)
           | Inr rcpts \<Rightarrow> gatherMessages env blks (nextMessages @ [msgs]) (nextReceipts @ [rcpts])))"

definition calculateParentWeight :: "Env \<Rightarrow> Store \<Rightarrow> TipSet \<Rightarrow> TipSet \<Rightarrow> error + uint64" where
  "calculateParentWeight env st parent grandParent =
     (if Equals grandParent UndefTipSet then NewWeight env parent cid_Undef
      else
        case GetTipSetStateRoot st (Key grandParent) of
          Inl err \<Rightarrow> Inl err
        | Inr gpStRoot \<Rightarrow> NewWeight env parent gpStRoot)"

text \<open>
  \<^verbatim>\<open>syncOne\<close> in three parts. First, up to the state transition: the parent's state
  root, the ancestors, the messages, the parent weight, and the new state root.
\<close>

definition syncOneValidate :: "Env \<Rightarrow> Store \<Rightarrow> TipSet \<Rightarrow> TipSet \<Rightarrow> TipSet \<Rightarrow> error + Cid" where
  "syncOneValidate env st grandParent parent next =
     (case GetTipSetStateRoot st (Key parent) of Inl err \<Rightarrow> Inl err | Inr stateRoot \<Rightarrow>
      case Height next of Inl err \<Rightarrow> Inl err | Inr h \<Rightarrow>
      let ancestorHeight = int (unat h) - int (AncestorRoundsNeeded env) in
      case GetRecentAncestors env parent st ancestorHeight of Inl err \<Rightarrow> Inl err | Inr ancestors \<Rightarrow>
      case gatherMessages env (ts_blocks next) [] [] of Inl err \<Rightarrow> Inl err
      | Inr (nextMessages, nextReceipts) \<Rightarrow>
      case calculateParentWeight env st parent grandParent of Inl err \<Rightarrow> Inl err
      | Inr parentWeight \<Rightarrow>
          RunStateTransition env next nextMessages nextReceipts ancestors parentWeight stateRoot)"

text \<open>
  Last, once the tipset is in the store: is it heavier than the prior head? If so it
  becomes the head.
\<close>

definition syncOneSelect :: "Env \<Rightarrow> Store \<Rightarrow> TipSetKey \<Rightarrow> TipSet \<Rightarrow> TipSet \<Rightarrow> error option \<times> Store" where
  "syncOneSelect env st1 priorHeadKey parent next =
     (case GetTipSetStateRoot st1 (Key parent) of Inl err \<Rightarrow> (Some err, st1)
      | Inr nextParentStateID \<Rightarrow>
      case GetTipSet st1 priorHeadKey of Inl err \<Rightarrow> (Some err, st1) | Inr headTipSet \<Rightarrow>
      case Parents headTipSet of Inl err \<Rightarrow> (Some err, st1) | Inr headParentKey \<Rightarrow>
      case (if headParentKey \<noteq> [] then GetTipSetStateRoot st1 headParentKey else Inr cid_Undef) of
        Inl err \<Rightarrow> (Some err, st1)
      | Inr headParentStateID \<Rightarrow>
      case IsHeavier env next headTipSet nextParentStateID headParentStateID of
        Inl err \<Rightarrow> (Some err, st1)
      | Inr heavier \<Rightarrow>
          if heavier then
            (case SetHead next st1 of Inl err \<Rightarrow> (Some err, st1) | Inr st2 \<Rightarrow> (None, st2))
          else (None, st1))"

text \<open>
  \<^verbatim>\<open>syncOne\<close> returns its error (\<open>None\<close> for nil) and the store as it has left it: a
  tipset put before a later step fails stays in the store.
\<close>

definition syncOne :: "Env \<Rightarrow> Store \<Rightarrow> TipSet \<Rightarrow> TipSet \<Rightarrow> TipSet \<Rightarrow> error option \<times> Store" where
  "syncOne env st grandParent parent next =
     (let priorHeadKey = GetHead st in
      if priorHeadKey = Key next then (None, st)
      else
        case syncOneValidate env st grandParent parent next of
          Inl err \<Rightarrow> (Some err, st)
        | Inr root \<Rightarrow>
            (case PutTipSetAndState \<lparr>tsas_TipSet = next, tsas_TipSetStateRoot = root\<rparr> st of
               Inl err \<Rightarrow> (Some err, st)
             | Inr st1 \<Rightarrow> syncOneSelect env st1 priorHeadKey parent next))"

definition ancestorsFromStore :: "Store \<Rightarrow> TipSet \<Rightarrow> error + (TipSet \<times> TipSet)" where
  "ancestorsFromStore st ts =
     (case Parents ts of Inl err \<Rightarrow> Inl err | Inr parentCids \<Rightarrow>
      case GetTipSet st parentCids of Inl err \<Rightarrow> Inl err | Inr parent \<Rightarrow>
      case Parents parent of Inl err \<Rightarrow> Inl err | Inr grandParentCids \<Rightarrow>
      if grandParentCids = [] then Inr (parent, UndefTipSet)
      else
        case GetTipSet st grandParentCids of Inl err \<Rightarrow> Inl err
        | Inr grandParent \<Rightarrow> Inr (parent, grandParent))"

text \<open>
  The loop of \<^verbatim>\<open>widen\<close> that takes the candidate with the most blocks: it starts from
  the first candidate and runs over all of them.
\<close>

definition widenMax :: "TipSetAndState \<Rightarrow> TipSetAndState list \<Rightarrow> TipSet" where
  "widenMax c0 candidates =
     foldl (\<lambda>max candidate. if Len (tsas_TipSet candidate) > Len max then tsas_TipSet candidate else max)
       (tsas_TipSet c0) candidates"

text \<open>The second loop of \<^verbatim>\<open>widen\<close>: the blocks of the largest tipset not seen yet.\<close>

fun widenUnion :: "Block list \<Rightarrow> Cid set \<Rightarrow> Block list \<Rightarrow> Block list" where
  "widenUnion [] blockCids blockSlice = blockSlice"
| "widenUnion (blk # blks) blockCids blockSlice =
     (if blk_cid blk \<in> blockCids then widenUnion blks blockCids blockSlice
      else widenUnion blks (insert (blk_cid blk) blockCids) (blockSlice @ [blk]))"

text \<open>
  \<^verbatim>\<open>widen\<close> once the largest candidate \<^verbatim>\<open>max\<close> (here \<open>maxTs\<close>) is chosen: the union of the blocks,
  the new tipset, and the check that it is distinct from both.
\<close>

definition widenWith :: "TipSet \<Rightarrow> TipSet \<Rightarrow> error + TipSet" where
  "widenWith ts maxTs =
     (let blockSlice = widenUnion (ts_blocks maxTs) (set (map blk_cid (ts_blocks ts))) (ts_blocks ts)
      in case NewTipSet blockSlice of
           Inl err \<Rightarrow> Inl err
         | Inr wts \<Rightarrow>
             if String wts = String ts \<or> String wts = String maxTs then Inr UndefTipSet
             else Inr wts)"

definition widen :: "Store \<Rightarrow> TipSet \<Rightarrow> error + TipSet" where
  "widen st ts =
     (case Parents ts of Inl err \<Rightarrow> Inl err | Inr parentSet \<Rightarrow>
      case Height ts of Inl err \<Rightarrow> Inl err | Inr height \<Rightarrow>
      if \<not> HasTipSetAndStatesWithParentsAndHeight st parentSet height then Inr UndefTipSet
      else
      case GetTipSetAndStatesByParentsAndHeight st parentSet height of Inl err \<Rightarrow> Inl err
      | Inr candidates \<Rightarrow>
      (case candidates of
         [] \<Rightarrow> Inr UndefTipSet
       | c0 # _ \<Rightarrow> widenWith ts (widenMax c0 candidates)))"

text \<open>The callback \<^verbatim>\<open>HandleNewTipSet\<close> hands to the fetcher.\<close>

definition fetchDone :: "Store \<Rightarrow> TipSet \<Rightarrow> bool \<times> error option" where
  "fetchDone st t =
     (case Parents t of Inl err \<Rightarrow> (True, Some err) | Inr parents \<Rightarrow>
      case Height t of Inl err \<Rightarrow> (False, Some err) | Inr height \<Rightarrow>
      (HasTipSetAndState st parents, None))"

text \<open>
  The first half of the loop body of \<^verbatim>\<open>HandleNewTipSet\<close>: for the first tipset only,
  widen and sync the widened tipset. \<^verbatim>\<open>wts\<close> is declared in the body, so it is the
  undefined tipset in every later round. A failure returns the error at once.
\<close>

definition widenStep ::
    "Env \<Rightarrow> nat \<Rightarrow> TipSet \<Rightarrow> TipSet \<Rightarrow> TipSet \<Rightarrow> Syncer \<Rightarrow> (error \<times> Syncer) + (TipSet \<times> Syncer)" where
  "widenStep env i ts grandParent parent s =
     (if i = 0 then
        (case widen (chainStore s) ts of
           Inl err \<Rightarrow> Inl (err, s)
         | Inr wts \<Rightarrow>
             if Defined wts then
               (case syncOne env (chainStore s) grandParent parent wts of
                  (Some err, st') \<Rightarrow> Inl (err, s\<lparr>chainStore := st'\<rparr>)
                | (None, st') \<Rightarrow> Inr (wts, s\<lparr>chainStore := st'\<rparr>))
             else Inr (wts, s))
      else Inr (UndefTipSet, s))"

text \<open>
  The second half: sync the tipset itself unless the chain is this one tipset and a
  widened tipset was synced. Only this failure poisons \<^verbatim>\<open>chain[i:]\<close>.
\<close>

definition syncStep ::
    "Env \<Rightarrow> TipSet list \<Rightarrow> nat \<Rightarrow> TipSet \<Rightarrow> TipSet \<Rightarrow> TipSet \<Rightarrow> TipSet \<Rightarrow> Syncer \<Rightarrow>
     (error \<times> Syncer) + Syncer" where
  "syncStep env chain i wts ts grandParent parent s =
     (if \<not> Defined wts \<or> length chain > 1 then
        (case syncOne env (chainStore s) grandParent parent ts of
           (Some err, st') \<Rightarrow>
             Inl (err, s\<lparr>chainStore := st', badTipSets := AddChain (drop i chain) (badTipSets s)\<rparr>)
         | (None, st') \<Rightarrow> Inr (s\<lparr>chainStore := st'\<rparr>))
      else Inr s)"

text \<open>
  The loop \<^verbatim>\<open>for i, ts := range chain\<close>: the tipsets still to visit are \<open>chain[i:]\<close>.
\<close>

fun syncLoop ::
    "Env \<Rightarrow> TipSet list \<Rightarrow> nat \<Rightarrow> TipSet list \<Rightarrow> TipSet \<Rightarrow> TipSet \<Rightarrow> Syncer \<Rightarrow> error option \<times> Syncer" where
  "syncLoop env chain i [] grandParent parent s = (None, s)"
| "syncLoop env chain i (ts # rest) grandParent parent s =
     (case widenStep env i ts grandParent parent s of
        Inl (err, s1) \<Rightarrow> (Some err, s1)
      | Inr (wts, s1) \<Rightarrow>
          (case syncStep env chain i wts ts grandParent parent s1 of
             Inl (err, s2) \<Rightarrow> (Some err, s2)
           | Inr s2 \<Rightarrow> syncLoop env chain (Suc i) rest parent ts s2))"

text \<open>
  \<^verbatim>\<open>HandleNewTipSet\<close> returns its error and the syncer as it has left it, or panics:
  \<^verbatim>\<open>chain[0]\<close> on an empty chain is the runtime's index-out-of-range panic.
  \<^verbatim>\<open>Reverse\<close> turns the fetcher's traversal order into height order.
\<close>

definition HandleNewTipSet :: "Env \<Rightarrow> Syncer \<Rightarrow> ChainInfo \<Rightarrow> bool \<Rightarrow> (error option \<times> Syncer) outcome" where
  "HandleNewTipSet env s ci trusted =
     (if HasTipSetAndState (chainStore s) (ci_Head ci) then Returns (None, s)
      else
      case GetTipSet (chainStore s) (GetHead (chainStore s)) of Inl err \<Rightarrow> Returns (Some err, s)
      | Inr curHead \<Rightarrow>
      case Height curHead of Inl err \<Rightarrow> Returns (Some err, s) | Inr curHeight \<Rightarrow>
      if \<not> trusted \<and> ExceedsUntrustedChainLength curHeight (ci_Height ci)
        then Returns (Some ErrNewChainTooLong, s)
      else
      case FetchTipSets env (ci_Head ci) (ci_Peer ci) (fetchDone (chainStore s)) of
        Inl err \<Rightarrow> Returns (Some err, s)
      | Inr fetched \<Rightarrow>
      let chain = rev fetched in
      case chain of
        [] \<Rightarrow> Panics PanicIndexOutOfRange
      | c0 # _ \<Rightarrow>
      case ancestorsFromStore (chainStore s) c0 of Inl err \<Rightarrow> Returns (Some err, s)
      | Inr (parent, grandParent) \<Rightarrow>
          Returns (syncLoop env chain 0 chain grandParent parent s))"

section \<open>Package message: the outbound queue and its policy\<close>

text \<open>
  Modelled from the spec: \<^verbatim>\<open>message.Queue\<close> (only the test of the policy is among the
  sources). The queue is partitioned by sender address; an entry is a signed message
  with the stamp it was enqueued at. \<^verbatim>\<open>Enqueue\<close> appends to the queue of the sender and
  fails unless the nonce is above every nonce queued for that sender. \<^verbatim>\<open>RemoveNext\<close>
  removes the head of the sender's queue and fails with \<^verbatim>\<open>NonceMismatch{got, expected}\<close>
  if the head's nonce differs from the expected nonce.
\<close>

record Queued =
  q_Msg :: SignedMessage
  q_Stamp :: uint64

type_synonym Queue = "Address \<Rightarrow> Queued list"

definition NewQueue :: Queue where
  "NewQueue = (\<lambda>sender. [])"

definition List :: "Queue \<Rightarrow> Address \<Rightarrow> Queued list" where
  "List q sender = q sender"

definition Enqueue :: "SignedMessage \<Rightarrow> uint64 \<Rightarrow> Queue \<Rightarrow> error + Queue" where
  "Enqueue msg stamp q =
     (if list_ex (\<lambda>e. msg_nonce msg \<le> msg_nonce (q_Msg e)) (q (msg_from msg)) then Inl ErrNonceNotIncreasing
      else Inr (q(msg_from msg := q (msg_from msg) @ [\<lparr>q_Msg = msg, q_Stamp = stamp\<rparr>])))"

definition RemoveNext :: "Address \<Rightarrow> uint64 \<Rightarrow> Queue \<Rightarrow> error + Queue" where
  "RemoveNext sender expected q =
     (case q sender of
        [] \<Rightarrow> Inr q
      | e # rest \<Rightarrow>
          if msg_nonce (q_Msg e) = expected then Inr (q(sender := rest))
          else Inl (NonceMismatch (msg_nonce (q_Msg e)) expected))"

text \<open>
  Modelled from the spec: \<^verbatim>\<open>Queue.ExpireBefore\<close>. The spec states the threshold both as
  \<open>stamp \<le> threshold\<close> and, in its scenario for the test, as strictly older with the
  whole sender purged on any expired entry. The test of the source
  (\<^verbatim>\<open>expires old messages\<close>) decides: with window 10 a stamp-100 entry is unchanged at
  height 110, and at height 111 the sender's entries of stamps 100, 101 and 102 are all
  gone. So an entry is expired when its stamp is strictly below the threshold, and a
  sender with an expired entry loses the whole queue.
\<close>

definition ExpireBefore :: "uint64 \<Rightarrow> Queue \<Rightarrow> Queue" where
  "ExpireBefore stamp q =
     (\<lambda>sender. if list_ex (\<lambda>e. q_Stamp e < stamp) (q sender) then [] else q sender)"

text \<open>
  The text of an error, as far as the spec fixes it: a nonce mismatch carries the
  literal \<^verbatim>\<open>nonce N, expected M\<close>, with the numbers in decimal.
\<close>

definition digit :: "nat \<Rightarrow> char" where
  "digit n = ''0123456789'' ! n"

fun decimal :: "nat \<Rightarrow> string" where
  "decimal n = (if n < 10 then [digit n] else decimal (n div 10) @ [digit (n mod 10)])"

declare decimal.simps [simp del]

definition errorText :: "error \<Rightarrow> string" where
  "errorText err =
     (case err of
        NonceMismatch got expected \<Rightarrow>
          ''nonce '' @ decimal (unat got) @ '', expected '' @ decimal (unat expected)
      | _ \<Rightarrow> ''error'')"

fun Contains :: "string \<Rightarrow> string \<Rightarrow> bool" where
  "Contains [] substr = (substr = [])"
| "Contains (c # s) substr = (take (length substr) (c # s) = substr \<or> Contains s substr)"

text \<open>
  Modelled from the spec: the policy \<^verbatim>\<open>HandleNewHead(old_chain, new_chain)\<close> with its
  expiry window, over the message list of each block (the message provider). One mined
  message: look at the head of the queue of its sender; if the queue is empty, skip;
  if the head's nonce matches, remove it; if it differs, fail.
\<close>

record MessageQueuePolicy =
  pol_messages :: "Cid \<Rightarrow> SignedMessage list"
  pol_maxAge :: uint64

definition removeMined :: "SignedMessage \<Rightarrow> Queue \<Rightarrow> error + Queue" where
  "removeMined msg q =
     (case q (msg_from msg) of
        [] \<Rightarrow> Inr q
      | e # rest \<Rightarrow> RemoveNext (msg_from msg) (msg_nonce msg) q)"

fun removeMessages :: "SignedMessage list \<Rightarrow> Queue \<Rightarrow> error + Queue" where
  "removeMessages [] q = Inr q"
| "removeMessages (msg # msgs) q =
     (case removeMined msg q of Inl err \<Rightarrow> Inl err | Inr q' \<Rightarrow> removeMessages msgs q')"

text \<open>The blocks of a tipset are visited in canonical order, as \<^verbatim>\<open>At(i)\<close> gives them.\<close>

fun removeBlocks :: "MessageQueuePolicy \<Rightarrow> Block list \<Rightarrow> Queue \<Rightarrow> error + Queue" where
  "removeBlocks pol [] q = Inr q"
| "removeBlocks pol (blk # blks) q =
     (case removeMessages (pol_messages pol (blk_messages blk)) q of
        Inl err \<Rightarrow> Inl err
      | Inr q' \<Rightarrow> removeBlocks pol blks q')"

fun removeTipSets :: "MessageQueuePolicy \<Rightarrow> TipSet list \<Rightarrow> Queue \<Rightarrow> error + Queue" where
  "removeTipSets pol [] q = Inr q"
| "removeTipSets pol (ts # tss) q =
     (case removeBlocks pol (ts_blocks ts) q of
        Inl err \<Rightarrow> Inl err
      | Inr q' \<Rightarrow> removeTipSets pol tss q')"

text \<open>The height of a tipset of the new chain; the undefined tipset counts as height 0.\<close>

definition heightOf :: "TipSet \<Rightarrow> uint64" where
  "heightOf ts = (case Height ts of Inl err \<Rightarrow> 0 | Inr h \<Rightarrow> h)"

definition maxHeight :: "TipSet list \<Rightarrow> uint64" where
  "maxHeight chain = foldl max 0 (map heightOf chain)"

text \<open>
  After the blocks, the expiry: with \<open>h\<close> the largest height in the new chain, the
  entries older than \<open>h - expiry_window\<close> expire. The threshold is a difference of
  integers: the test \<^verbatim>\<open>old block does nothing\<close> (height 1, window 10, stamps 100 and
  200) leaves both queues unchanged, so nothing expires while the height is below the
  window.
\<close>

definition expireOld :: "MessageQueuePolicy \<Rightarrow> TipSet list \<Rightarrow> Queue \<Rightarrow> Queue" where
  "expireOld pol newChain q =
     (let h = maxHeight newChain in
      if pol_maxAge pol \<le> h then ExpireBefore (h - pol_maxAge pol) q else q)"

definition HandleNewHead ::
    "MessageQueuePolicy \<Rightarrow> Queue \<Rightarrow> TipSet list \<Rightarrow> TipSet list \<Rightarrow> error + Queue" where
  "HandleNewHead pol q oldChain newChain =
     (if newChain = [] \<or> list_all (\<lambda>ts. heightOf ts = 0) newChain then Inr q
      else
        case removeTipSets pol newChain q of
          Inl err \<Rightarrow> Inl err
        | Inr q' \<Rightarrow> Inr (expireOld pol newChain q'))"

text \<open>
  The mined messages of a chain in the order the policy meets them: tipset by tipset,
  block by block in canonical order, message by message.
\<close>

definition allMessages :: "MessageQueuePolicy \<Rightarrow> TipSet list \<Rightarrow> SignedMessage list" where
  "allMessages pol chain =
     concat (map (\<lambda>ts. concat (map (\<lambda>blk. pol_messages pol (blk_messages blk)) (ts_blocks ts))) chain)"

section \<open>The outcome of a sync, as the specification states it\<close>

text \<open>
  The store only grows: a later store extends an earlier one by further records.
\<close>

definition extends :: "Store \<Rightarrow> Store \<Rightarrow> bool" where
  "extends st st' = (\<exists>extra. st_tsas st' = st_tsas st @ extra)"

text \<open>
  The comparison of the specification: \<open>next\<close> is deemed heavier than the head
  \<open>headKey\<close> when \<^verbatim>\<open>ChainSelector.IsHeavier\<close> says so, given the state roots of the
  parents of both as the store has them (the undefined CID for the parent of genesis).
\<close>

definition heavierThanHead :: "Env \<Rightarrow> Store \<Rightarrow> TipSetKey \<Rightarrow> TipSet \<Rightarrow> TipSet \<Rightarrow> bool" where
  "heavierThanHead env st headKey parent next =
     (case GetTipSetStateRoot st (Key parent) of Inl err \<Rightarrow> False | Inr nextParentStateID \<Rightarrow>
      case GetTipSet st headKey of Inl err \<Rightarrow> False | Inr headTipSet \<Rightarrow>
      case Parents headTipSet of Inl err \<Rightarrow> False | Inr headParentKey \<Rightarrow>
      case (if headParentKey \<noteq> [] then GetTipSetStateRoot st headParentKey else Inr cid_Undef) of
        Inl err \<Rightarrow> False
      | Inr headParentStateID \<Rightarrow>
          IsHeavier env next headTipSet nextParentStateID headParentStateID = Inr True)"

text \<open>
  The head chosen among a sequence of synced tipsets, each with the parent it was
  synced on: every tipset in turn is compared with the head so far and replaces it when
  it is deemed heavier, starting from the prior head.
\<close>

fun chooseHead :: "Env \<Rightarrow> Store \<Rightarrow> TipSetKey \<Rightarrow> (TipSet \<times> TipSet) list \<Rightarrow> TipSetKey" where
  "chooseHead env st headKey [] = headKey"
| "chooseHead env st headKey ((parent, next) # rest) =
     chooseHead env st
       (if headKey \<noteq> Key next \<and> heavierThanHead env st headKey parent next then Key next else headKey)
       rest"

text \<open>
  The tipsets a call syncs, in the order it syncs them: the widened tipset when
  \<^verbatim>\<open>widen\<close> yields one, then the tipsets of the chain, each on its predecessor, without
  the first when the chain is that one tipset and it was widened.
\<close>

fun withParents :: "TipSet \<Rightarrow> TipSet list \<Rightarrow> (TipSet \<times> TipSet) list" where
  "withParents parent [] = []"
| "withParents parent (ts # rest) = (parent, ts) # withParents ts rest"

definition syncedTipSets :: "TipSet \<Rightarrow> TipSet \<Rightarrow> TipSet list \<Rightarrow> TipSet \<Rightarrow> (TipSet \<times> TipSet) list" where
  "syncedTipSets parent c0 rest wts =
     (if Defined wts then [(parent, wts)] else []) @
     (if Defined wts \<and> rest = [] then [] else (parent, c0) # withParents c0 rest)"

text \<open>A tipset is in the store, together with a state root.\<close>

definition storedWithRoot :: "Store \<Rightarrow> TipSet \<Rightarrow> bool" where
  "storedWithRoot st ts =
     (HasTipSetAndState st (Key ts) \<and> (\<exists>root. GetTipSetStateRoot st (Key ts) = Inr root))"

section \<open>Fixtures: the scenarios of the tests\<close>

definition mkBlock :: "Cid \<Rightarrow> 8 word list \<Rightarrow> TipSetKey \<Rightarrow> uint64 \<Rightarrow> Block" where
  "mkBlock c t ps h =
     \<lparr>blk_cid = c, blk_miner = ''miner'', blk_ticket = t, blk_parents = ps,
      blk_parentWeight = 0, blk_height = h, blk_messages = c @ [1],
      blk_messageReceipts = c @ [2], blk_stateRoot = [], blk_timestamp = 0\<rparr>"

definition exGenesis :: TipSet where
  "exGenesis = TipSet [mkBlock [0] [0] [] 0]"

definition exB1 :: Block where
  "exB1 = mkBlock [1] [1] [[0]] 1"

definition exB2 :: Block where
  "exB2 = mkBlock [2] [2] [[0]] 1"

text \<open>A store holding the genesis tipset as head, and one that also holds a sibling.\<close>

definition exStore :: Store where
  "exStore = \<lparr>st_tsas = [\<lparr>tsas_TipSet = exGenesis, tsas_TipSetStateRoot = [100]\<rparr>],
             st_head = [[0]]\<rparr>"

definition exStoreSibling :: Store where
  "exStoreSibling =
     \<lparr>st_tsas = [\<lparr>tsas_TipSet = exGenesis, tsas_TipSetStateRoot = [100]\<rparr>,
                 \<lparr>tsas_TipSet = TipSet [exB2], tsas_TipSetStateRoot = [102]\<rparr>],
      st_head = [[0]]\<rparr>"

text \<open>
  Collaborators: the fetcher returns \<open>fetched\<close>; message lists load when \<open>loads\<close>
  holds; the state transition succeeds on the tipsets \<open>valid\<close> accepts; a tipset is
  heavier when it has more blocks or is higher.
\<close>

definition exEnv :: "TipSet list \<Rightarrow> bool \<Rightarrow> (TipSet \<Rightarrow> bool) \<Rightarrow> Env" where
  "exEnv fetched loads valid =
     \<lparr>FetchTipSets = (\<lambda>head peer done. Inr fetched),
      LoadMessages = (\<lambda>c. if loads then Inr [] else Inl (ErrCollaborator 2)),
      LoadReceipts = (\<lambda>c. Inr []),
      RunStateTransition = (\<lambda>ts msgs rcpts ancestors w root.
         if valid ts then Inr (root @ concat (Key ts)) else Inl (ErrCollaborator 1)),
      IsHeavier = (\<lambda>a b sa sb. Inr (Len a > Len b \<or> heightOf a > heightOf b)),
      NewWeight = (\<lambda>ts root. Inr 0),
      GetRecentAncestors = (\<lambda>ts st h. Inr []),
      AncestorRoundsNeeded = 3\<rparr>"

definition exChainInfo :: ChainInfo where
  "exChainInfo = \<lparr>ci_Peer = 0, ci_Head = [[1]], ci_Height = 1\<rparr>"

text \<open>A store holding two sibling tipsets of one block each, stored in this order.\<close>

definition exB3 :: Block where
  "exB3 = mkBlock [3] [3] [[0]] 1"

definition exStoreTie :: Store where
  "exStoreTie =
     \<lparr>st_tsas = [\<lparr>tsas_TipSet = exGenesis, tsas_TipSetStateRoot = [100]\<rparr>,
                 \<lparr>tsas_TipSet = TipSet [exB2], tsas_TipSetStateRoot = [102]\<rparr>,
                 \<lparr>tsas_TipSet = TipSet [exB3], tsas_TipSetStateRoot = [103]\<rparr>],
      st_head = [[0]]\<rparr>"

text \<open>A store whose head is 600 below the largest height a block can carry.\<close>

definition exStoreHigh :: Store where
  "exStoreHigh =
     \<lparr>st_tsas = [\<lparr>tsas_TipSet = TipSet [mkBlock [7] [7] [[6]] 18446744073709551016],
                   tsas_TipSetStateRoot = [107]\<rparr>],
      st_head = [[7]]\<rparr>"

text \<open>A child of \<open>exB1\<close>, and the chain info that declares it.\<close>

definition exB4 :: Block where
  "exB4 = mkBlock [4] [4] [[1]] 2"

definition exChainInfo2 :: ChainInfo where
  "exChainInfo2 = \<lparr>ci_Peer = 0, ci_Head = [[4]], ci_Height = 2\<rparr>"

text \<open>The messages and queues of \<^verbatim>\<open>TestMessageQueuePolicy\<close>.\<close>

definition exMsg :: "Address \<Rightarrow> uint64 \<Rightarrow> SignedMessage" where
  "exMsg sender nonce = \<lparr>msg_from = sender, msg_nonce = nonce\<rparr>"

definition qm :: "SignedMessage \<Rightarrow> uint64 \<Rightarrow> Queued" where
  "qm msg stamp = \<lparr>q_Msg = msg, q_Stamp = stamp\<rparr>"

definition exQueue :: "uint64 \<Rightarrow> Queue" where
  "exQueue bobStamp =
     NewQueue(''alice'' := [qm (exMsg ''alice'' 1) 100, qm (exMsg ''alice'' 2) 101,
                            qm (exMsg ''alice'' 3) 102],
              ''bob'' := [qm (exMsg ''bob'' 1) bobStamp])"

text \<open>A policy with window 10 whose provider maps the message CID of a block to its list.\<close>

definition exPolicy :: "(Cid \<times> SignedMessage list) list \<Rightarrow> MessageQueuePolicy" where
  "exPolicy table =
     \<lparr>pol_messages = (\<lambda>c. case map_of table c of None \<Rightarrow> [] | Some msgs \<Rightarrow> msgs),
      pol_maxAge = 10\<rparr>"

text \<open>
  A queue whose first entry is old and whose second entry has the stamp that a head at
  height 110 puts exactly on the threshold of a window of 10.
\<close>

definition exQueueOld :: Queue where
  "exQueueOld = NewQueue(''alice'' := [qm (exMsg ''alice'' 1) 50, qm (exMsg ''alice'' 2) 100])"

text \<open>
  The two sibling blocks of \<^verbatim>\<open>removes sequential messages in peer blocks\<close>, with the
  ticket left open: the block with alice's nonce 1 has the larger CID.
\<close>

definition exSiblingA :: "8 word list \<Rightarrow> Block" where
  "exSiblingA ticket = mkBlock [9] ticket [[4]] 101"

definition exSiblingB :: "8 word list \<Rightarrow> Block" where
  "exSiblingB ticket = mkBlock [3] ticket [[4]] 101"

definition exSiblingPolicy :: MessageQueuePolicy where
  "exSiblingPolicy = exPolicy [([9, 1], [exMsg ''alice'' 1]), ([3, 1], [exMsg ''alice'' 2])]"

definition exQueue2 :: Queue where
  "exQueue2 = NewQueue(''alice'' := [qm (exMsg ''alice'' 1) 100, qm (exMsg ''alice'' 2) 101])"

section \<open>Properties of the journal\<close>

lemma reachable_topics_empty: "reachable s \<Longrightarrow> mj_topics (journal s) = {}"
proof (induction rule: reachable.induct)
  case (reach_new clk)
  show ?case by (simp add: NewInMemoryJournal_def)
next
  case (reach_topic s tp a s')
  then show ?case by (auto simp: Topic_def Let_def split: if_splits)
next
  case (reach_write s mw ev kvs s')
  then show ?case by (auto simp: Write_def Let_def split: if_splits sum.splits)
qed

lemma Topic_returns:
  "mj_topics (journal s) = {} \<Longrightarrow>
   Topic tp s = Returns (length (heap s),
     s\<lparr>heap := heap s @ [\<lparr>mw_clock = mj_clock (journal s), mw_topic = tp, mw_entries = []\<rparr>],
       journal := (journal s)\<lparr>mj_writers := mj_writers (journal s) @ [length (heap s)]\<rparr>\<rparr>)"
  by (simp add: Topic_def Let_def)

text \<open>
  C10. \<^verbatim>\<open>MemoryJournal.Topic\<close> never takes its duplicate-topic panic branch: in every
  reachable state the topics map is empty, so calling \<^verbatim>\<open>Topic\<close> twice with the same
  topic returns two distinct writers, both for that topic, both kept by the journal, and
  a \<^verbatim>\<open>Write\<close> through either records an entry in that writer and leaves the other as
  it was.
\<close>

theorem Topic_duplicate_never_panics:
  assumes "reachable s"
  shows "\<exists>a1 s1 a2 s2.
           Topic tp s = Returns (a1, s1) \<and> Topic tp s1 = Returns (a2, s2) \<and>
           a1 \<noteq> a2 \<and> mj_topics (journal s2) = {} \<and>
           mw_topic (heap s2 ! a1) = tp \<and> mw_topic (heap s2 ! a2) = tp \<and>
           a1 \<in> set (mj_writers (journal s2)) \<and> a2 \<in> set (mj_writers (journal s2)) \<and>
           (\<forall>ev kvs m. extractKeyValues kvs = Inr m \<longrightarrow>
              (\<exists>s3. Write a1 ev kvs s2 = Returns s3 \<and>
                 length (mw_entries (heap s3 ! a1)) = Suc (length (mw_entries (heap s2 ! a1))) \<and>
                 heap s3 ! a2 = heap s2 ! a2) \<and>
              (\<exists>s3. Write a2 ev kvs s2 = Returns s3 \<and>
                 length (mw_entries (heap s3 ! a2)) = Suc (length (mw_entries (heap s2 ! a2))) \<and>
                 heap s3 ! a1 = heap s2 ! a1))"
proof -
  have e: "mj_topics (journal s) = {}"
    using assms by (rule reachable_topics_empty)
  define s1 where "s1 = s\<lparr>heap := heap s @ [\<lparr>mw_clock = mj_clock (journal s), mw_topic = tp, mw_entries = []\<rparr>],
       journal := (journal s)\<lparr>mj_writers := mj_writers (journal s) @ [length (heap s)]\<rparr>\<rparr>"
  define s2 where "s2 = s1\<lparr>heap := heap s1 @ [\<lparr>mw_clock = mj_clock (journal s1), mw_topic = tp, mw_entries = []\<rparr>],
       journal := (journal s1)\<lparr>mj_writers := mj_writers (journal s1) @ [length (heap s1)]\<rparr>\<rparr>"
  have t1: "Topic tp s = Returns (length (heap s), s1)"
    unfolding s1_def using e by (rule Topic_returns)
  have e1: "mj_topics (journal s1) = {}"
    using e by (simp add: s1_def)
  have t2: "Topic tp s1 = Returns (length (heap s1), s2)"
    unfolding s2_def using e1 by (rule Topic_returns)
  have l1: "length (heap s1) = Suc (length (heap s))"
    by (simp add: s1_def)
  have h2: "heap s2 = heap s @ [\<lparr>mw_clock = mj_clock (journal s), mw_topic = tp, mw_entries = []\<rparr>,
                               \<lparr>mw_clock = mj_clock (journal s), mw_topic = tp, mw_entries = []\<rparr>]"
    by (simp add: s2_def s1_def)
  have w2: "mj_writers (journal s2) = mj_writers (journal s) @ [length (heap s), Suc (length (heap s))]"
    by (simp add: s2_def s1_def)
  have a: "heap s2 ! length (heap s) = \<lparr>mw_clock = mj_clock (journal s), mw_topic = tp, mw_entries = []\<rparr>"
    by (simp add: h2 nth_append)
  have b: "heap s2 ! Suc (length (heap s)) = \<lparr>mw_clock = mj_clock (journal s), mw_topic = tp, mw_entries = []\<rparr>"
    by (simp add: h2 nth_append)
  have len2: "length (heap s2) = Suc (Suc (length (heap s)))"
    by (simp add: h2)
  have wr: "\<forall>ev kvs m. extractKeyValues kvs = Inr m \<longrightarrow>
              (\<exists>s3. Write (length (heap s)) ev kvs s2 = Returns s3 \<and>
                 length (mw_entries (heap s3 ! length (heap s))) = Suc (length (mw_entries (heap s2 ! length (heap s)))) \<and>
                 heap s3 ! Suc (length (heap s)) = heap s2 ! Suc (length (heap s))) \<and>
              (\<exists>s3. Write (Suc (length (heap s))) ev kvs s2 = Returns s3 \<and>
                 length (mw_entries (heap s3 ! Suc (length (heap s)))) = Suc (length (mw_entries (heap s2 ! Suc (length (heap s))))) \<and>
                 heap s3 ! length (heap s) = heap s2 ! length (heap s))"
    by (simp add: Write_def Let_def len2 a b)
  show ?thesis
    apply (rule exI [of _ "length (heap s)"], rule exI [of _ s1])
    apply (rule exI [of _ "Suc (length (heap s))"], rule exI [of _ s2])
    using t1 t2 l1 e1 a b w2 wr by (simp add: s2_def)
qed

theorem Topic_duplicate_never_panics_witness:
  "\<exists>a1 s1 a2 s2.
     Topic ''testing'' (NewInMemoryJournal 1234567890) = Returns (a1, s1) \<and>
     Topic ''testing'' s1 = Returns (a2, s2) \<and> a1 \<noteq> a2"
  using Topic_duplicate_never_panics [OF reach_new, of "''testing''" 1234567890] by blast

section \<open>Properties of the syncer\<close>

lemmas chain_defs =
  HandleNewTipSet_def syncStep_def widenStep_def widen_def widenWith_def widenMax_def fetchDone_def
  ancestorsFromStore_def syncOne_def syncOneSelect_def syncOneValidate_def calculateParentWeight_def
  ExceedsUntrustedChainLength_def UntrustedChainHeightLimit_def AddChain_def bad_Has_def
  HasTipSetAndStatesWithParentsAndHeight_def GetTipSetAndStatesByParentsAndHeight_def SetHead_def
  PutTipSetAndState_def HasTipSetAndState_def GetTipSetStateRoot_def GetTipSet_def lookupKey_def
  GetHead_def NewTipSet_def Height_def Parents_def String_def Equals_def Key_def Len_def Defined_def
  UndefTipSet_def cid_Undef_def heightOf_def Let_def

lemmas fixture_defs =
  mkBlock_def exGenesis_def exB1_def exB2_def exB3_def exStore_def exStoreSibling_def exStoreTie_def
  exStoreHigh_def exEnv_def exChainInfo_def exB4_def exChainInfo2_def

subsection \<open>The empty fetch\<close>

lemma HandleNewTipSet_panics_iff:
  "(\<exists>p. HandleNewTipSet env s ci trusted = Panics p) \<longleftrightarrow>
     (\<not> HasTipSetAndState (chainStore s) (ci_Head ci) \<and>
      (\<exists>curHead curHeight.
          GetTipSet (chainStore s) (GetHead (chainStore s)) = Inr curHead \<and>
          Height curHead = Inr curHeight \<and>
          (trusted \<or> \<not> ExceedsUntrustedChainLength curHeight (ci_Height ci))) \<and>
      FetchTipSets env (ci_Head ci) (ci_Peer ci) (fetchDone (chainStore s)) = Inr [])"
  by (auto simp: HandleNewTipSet_def Let_def split: sum.splits list.splits prod.splits)

text \<open>
  C8. If the store does not have the declared head, the current head can be read, the
  length check passes and the fetcher returns successfully with no tipset at all, then
  \<^verbatim>\<open>HandleNewTipSet\<close> indexes \<^verbatim>\<open>chain[0]\<close> of the empty chain: it panics with
  index out of range and returns no error value.
\<close>

theorem HandleNewTipSet_empty_fetch_panics:
  assumes "\<not> HasTipSetAndState (chainStore s) (ci_Head ci)"
    and "GetTipSet (chainStore s) (GetHead (chainStore s)) = Inr curHead"
    and "Height curHead = Inr curHeight"
    and "trusted \<or> \<not> ExceedsUntrustedChainLength curHeight (ci_Height ci)"
    and "FetchTipSets env (ci_Head ci) (ci_Peer ci) (fetchDone (chainStore s)) = Inr []"
  shows "HandleNewTipSet env s ci trusted = Panics PanicIndexOutOfRange"
  using assms by (auto simp: HandleNewTipSet_def Let_def split: sum.splits list.splits prod.splits)

theorem HandleNewTipSet_empty_fetch_panics_witness:
  "HandleNewTipSet (exEnv [] True (\<lambda>ts. True)) \<lparr>chainStore = exStore, badTipSets = {}\<rparr>
     exChainInfo False = Panics PanicIndexOutOfRange"
  by (rule HandleNewTipSet_empty_fetch_panics [where curHead = exGenesis and curHeight = 0])
     (simp_all add: chain_defs fixture_defs)

subsection \<open>The candidate \<^verbatim>\<open>widen\<close> takes\<close>

lemma foldl_largest_first:
  fixes l :: "TipSet list"
  shows "\<exists>i<length (m # l).
           foldl (\<lambda>mx c. if Len c > Len mx then c else mx) m l = (m # l) ! i \<and>
           (\<forall>j<length (m # l). Len ((m # l) ! j) \<le> Len ((m # l) ! i)) \<and>
           (\<forall>j<i. Len ((m # l) ! j) < Len ((m # l) ! i))"
proof (induction l rule: rev_induct)
  case Nil
  show ?case by simp
next
  case (snoc x xs)
  then obtain i where i: "i < length (m # xs)"
    and f: "foldl (\<lambda>mx c. if Len c > Len mx then c else mx) m xs = (m # xs) ! i"
    and le: "\<forall>j<length (m # xs). Len ((m # xs) ! j) \<le> Len ((m # xs) ! i)"
    and lt: "\<forall>j<i. Len ((m # xs) ! j) < Len ((m # xs) ! i)"
    by blast
  have app: "m # xs @ [x] = (m # xs) @ [x]" by simp
  show ?case
  proof (cases "Len x > Len ((m # xs) ! i)")
    case True
    let ?k = "length (m # xs)"
    have k: "(m # xs @ [x]) ! ?k = x"
      unfolding app by (simp only: nth_append_length)
    have old: "\<And>j. j < ?k \<Longrightarrow> (m # xs @ [x]) ! j = (m # xs) ! j"
      unfolding app by (simp only: nth_append if_True)
    have "foldl (\<lambda>mx c. if Len c > Len mx then c else mx) m (xs @ [x]) = x"
      using True f by simp
    moreover have "\<forall>j<length (m # xs @ [x]). Len ((m # xs @ [x]) ! j) \<le> Len x"
    proof (intro allI impI)
      fix j assume "j < length (m # xs @ [x])"
      then have "j < ?k \<or> j = ?k" by auto
      then show "Len ((m # xs @ [x]) ! j) \<le> Len x"
      proof
        assume j: "j < ?k"
        then have "Len ((m # xs) ! j) \<le> Len ((m # xs) ! i)" using le by blast
        then show ?thesis using True old [OF j] by simp
      next
        assume "j = ?k"
        then show ?thesis using k by simp
      qed
    qed
    moreover have "\<forall>j<?k. Len ((m # xs @ [x]) ! j) < Len x"
    proof (intro allI impI)
      fix j assume j: "j < ?k"
      then have "Len ((m # xs) ! j) \<le> Len ((m # xs) ! i)" using le by blast
      then show "Len ((m # xs @ [x]) ! j) < Len x" using True old [OF j] by simp
    qed
    ultimately show ?thesis
      using k by (intro exI [of _ ?k]) simp
  next
    case False
    let ?k = "length (m # xs)"
    have k: "(m # xs @ [x]) ! ?k = x"
      unfolding app by (simp only: nth_append_length)
    have old: "\<And>j. j < ?k \<Longrightarrow> (m # xs @ [x]) ! j = (m # xs) ! j"
      unfolding app by (simp only: nth_append if_True)
    have "foldl (\<lambda>mx c. if Len c > Len mx then c else mx) m (xs @ [x]) = (m # xs @ [x]) ! i"
      using False f old [OF i] by simp
    moreover have "\<forall>j<length (m # xs @ [x]). Len ((m # xs @ [x]) ! j) \<le> Len ((m # xs @ [x]) ! i)"
    proof (intro allI impI)
      fix j assume "j < length (m # xs @ [x])"
      then have "j < ?k \<or> j = ?k" by auto
      then show "Len ((m # xs @ [x]) ! j) \<le> Len ((m # xs @ [x]) ! i)"
      proof
        assume j: "j < ?k"
        then show ?thesis using le old [OF j] old [OF i] by simp
      next
        assume "j = ?k"
        then show ?thesis using k False old [OF i] by simp
      qed
    qed
    moreover have "\<forall>j<i. Len ((m # xs @ [x]) ! j) < Len ((m # xs @ [x]) ! i)"
    proof (intro allI impI)
      fix j assume j: "j < i"
      then have "j < ?k" using i by simp
      then show "Len ((m # xs @ [x]) ! j) < Len ((m # xs @ [x]) ! i)"
        using lt j old [OF i] old [of j] by simp
    qed
    ultimately show ?thesis
      using i by (intro exI [of _ i]) simp
  qed
qed

text \<open>
  C9. When the store lists candidates with the parents and height of the input tipset,
  \<^verbatim>\<open>widen\<close> goes on with the first candidate, in the order the store returns them,
  among those with the most blocks: no candidate has more blocks than the one taken,
  and every candidate before it has strictly fewer. The rest of \<^verbatim>\<open>widen\<close> is a
  function of the input tipset and that candidate.
\<close>

theorem widen_takes_first_largest:
  assumes "Parents ts = Inr parentSet" and "Height ts = Inr height"
    and "GetTipSetAndStatesByParentsAndHeight st parentSet height = Inr candidates"
    and "candidates \<noteq> []"
  shows "\<exists>i<length candidates.
           widenMax (hd candidates) candidates = tsas_TipSet (candidates ! i) \<and>
           (\<forall>j<length candidates. Len (tsas_TipSet (candidates ! j)) \<le> Len (tsas_TipSet (candidates ! i))) \<and>
           (\<forall>j<i. Len (tsas_TipSet (candidates ! j)) < Len (tsas_TipSet (candidates ! i))) \<and>
           widen st ts = widenWith ts (tsas_TipSet (candidates ! i))"
proof -
  obtain c0 cs where c: "candidates = c0 # cs"
    using assms(4) by (cases candidates) auto
  have step: "\<And>a. foldl (\<lambda>mx c. if Len (tsas_TipSet c) > Len mx then tsas_TipSet c else mx) a cs
        = foldl (\<lambda>mx c. if Len c > Len mx then c else mx) a (map tsas_TipSet cs)"
    by (induction cs rule: rev_induct) simp_all
  have wm: "widenMax c0 (c0 # cs) =
        foldl (\<lambda>mx c. if Len c > Len mx then c else mx) (tsas_TipSet c0) (map tsas_TipSet cs)"
    by (simp add: widenMax_def step)
  obtain i where i: "i < length (tsas_TipSet c0 # map tsas_TipSet cs)"
    and f: "widenMax c0 (c0 # cs) = (tsas_TipSet c0 # map tsas_TipSet cs) ! i"
    and le: "\<forall>j<length (tsas_TipSet c0 # map tsas_TipSet cs).
         Len ((tsas_TipSet c0 # map tsas_TipSet cs) ! j) \<le> Len ((tsas_TipSet c0 # map tsas_TipSet cs) ! i)"
    and lt: "\<forall>j<i. Len ((tsas_TipSet c0 # map tsas_TipSet cs) ! j) < Len ((tsas_TipSet c0 # map tsas_TipSet cs) ! i)"
    using foldl_largest_first [of "tsas_TipSet c0" "map tsas_TipSet cs"] unfolding wm by blast
  have m: "tsas_TipSet c0 # map tsas_TipSet cs = map tsas_TipSet candidates"
    by (simp add: c)
  have il: "i < length candidates" using i by (simp add: c)
  have nth: "\<And>j. j < length candidates \<Longrightarrow> map tsas_TipSet candidates ! j = tsas_TipSet (candidates ! j)"
    by (rule nth_map)
  have has: "HasTipSetAndStatesWithParentsAndHeight st parentSet height"
    using assms(3,4) by (auto simp: HasTipSetAndStatesWithParentsAndHeight_def
        GetTipSetAndStatesByParentsAndHeight_def list_ex_iff filter_empty_conv)
  have w: "widen st ts = widenWith ts (widenMax c0 candidates)"
    using assms(1,2,3) has by (simp add: widen_def c)
  have f0: "widenMax c0 (c0 # cs) = map tsas_TipSet candidates ! i"
    using f unfolding m .
  have "widenMax (hd candidates) candidates = widenMax c0 (c0 # cs)"
    by (simp add: c)
  also have "\<dots> = map tsas_TipSet candidates ! i"
    by (rule f0)
  also have "\<dots> = tsas_TipSet (candidates ! i)"
    by (rule nth [OF il])
  finally have f': "widenMax (hd candidates) candidates = tsas_TipSet (candidates ! i)" .
  have le': "\<forall>j<length candidates. Len (tsas_TipSet (candidates ! j)) \<le> Len (tsas_TipSet (candidates ! i))"
  proof (intro allI impI)
    fix j assume j: "j < length candidates"
    then have "Len (map tsas_TipSet candidates ! j) \<le> Len (map tsas_TipSet candidates ! i)"
      using le unfolding m by simp
    then show "Len (tsas_TipSet (candidates ! j)) \<le> Len (tsas_TipSet (candidates ! i))"
      using nth [OF j] nth [OF il] by simp
  qed
  have lt': "\<forall>j<i. Len (tsas_TipSet (candidates ! j)) < Len (tsas_TipSet (candidates ! i))"
  proof (intro allI impI)
    fix j assume j: "j < i"
    then have jl: "j < length candidates" using il by simp
    have "Len (map tsas_TipSet candidates ! j) < Len (map tsas_TipSet candidates ! i)"
      using lt j unfolding m by simp
    then show "Len (tsas_TipSet (candidates ! j)) < Len (tsas_TipSet (candidates ! i))"
      using nth [OF jl] nth [OF il] by simp
  qed
  show ?thesis
    using il f' le' lt' w by (intro exI [of _ i]) (simp add: c)
qed

theorem widen_takes_first_largest_witness:
  "widenMax \<lparr>tsas_TipSet = TipSet [exB2], tsas_TipSetStateRoot = [102]\<rparr>
     [\<lparr>tsas_TipSet = TipSet [exB2], tsas_TipSetStateRoot = [102]\<rparr>,
      \<lparr>tsas_TipSet = TipSet [exB3], tsas_TipSetStateRoot = [103]\<rparr>] = TipSet [exB2] \<and>
   widen exStoreTie (TipSet [exB1]) = widenWith (TipSet [exB1]) (TipSet [exB2])"
proof -
  let ?cands = "[\<lparr>tsas_TipSet = TipSet [exB2], tsas_TipSetStateRoot = [102]\<rparr>,
                 \<lparr>tsas_TipSet = TipSet [exB3], tsas_TipSetStateRoot = [103]\<rparr>]"
  have p: "Parents (TipSet [exB1]) = Inr [[0]]"
    by (simp add: chain_defs fixture_defs)
  have h: "Height (TipSet [exB1]) = Inr 1"
    by (simp add: chain_defs fixture_defs)
  have g: "GetTipSetAndStatesByParentsAndHeight exStoreTie [[0]] 1 = Inr ?cands"
    by (simp add: chain_defs fixture_defs)
  have n: "?cands \<noteq> []"
    by simp
  obtain i where i: "i < length ?cands"
    and m: "widenMax (hd ?cands) ?cands = tsas_TipSet (?cands ! i)"
    and lt: "\<forall>j<i. Len (tsas_TipSet (?cands ! j)) < Len (tsas_TipSet (?cands ! i))"
    and w: "widen exStoreTie (TipSet [exB1]) = widenWith (TipSet [exB1]) (tsas_TipSet (?cands ! i))"
    using widen_takes_first_largest [OF p h g n] by blast
  have "i = 0"
  proof (rule ccontr)
    assume "i \<noteq> 0"
    then have "i = 1" using i by simp
    then show False using lt [rule_format, of 0] by (simp add: Len_def)
  qed
  then show ?thesis using m w by simp
qed

subsection \<open>The length limit for untrusted chains\<close>

lemma ExceedsUntrustedChainLength_no_wrap:
  assumes "unat curHeight + UntrustedChainHeightLimit < 2 ^ 64"
  shows "ExceedsUntrustedChainLength curHeight newHeight \<longleftrightarrow>
         unat newHeight > unat curHeight + UntrustedChainHeightLimit"
proof -
  have "unat (curHeight + word_of_nat UntrustedChainHeightLimit) = unat curHeight + UntrustedChainHeightLimit"
    using assms by (simp add: unat_word_ariths UntrustedChainHeightLimit_def)
  then show ?thesis
    by (simp add: ExceedsUntrustedChainLength_def Let_def word_less_nat_alt)
qed

lemma HandleNewTipSet_too_long_iff:
  assumes "\<not> HasTipSetAndState (chainStore s) (ci_Head ci)"
    and "GetTipSet (chainStore s) (GetHead (chainStore s)) = Inr curHead"
    and "Height curHead = Inr curHeight"
  shows "\<not> trusted \<and> ExceedsUntrustedChainLength curHeight (ci_Height ci) \<Longrightarrow>
           HandleNewTipSet env s ci trusted = Returns (Some ErrNewChainTooLong, s)"
    and "trusted \<or> \<not> ExceedsUntrustedChainLength curHeight (ci_Height ci) \<Longrightarrow>
           HandleNewTipSet env s ci trusted =
             (case FetchTipSets env (ci_Head ci) (ci_Peer ci) (fetchDone (chainStore s)) of
                Inl err \<Rightarrow> Returns (Some err, s)
              | Inr fetched \<Rightarrow>
                  (case rev fetched of
                     [] \<Rightarrow> Panics PanicIndexOutOfRange
                   | c0 # rest \<Rightarrow>
                       (case ancestorsFromStore (chainStore s) c0 of
                          Inl err \<Rightarrow> Returns (Some err, s)
                        | Inr (parent, grandParent) \<Rightarrow>
                            Returns (syncLoop env (c0 # rest) 0 (c0 # rest) grandParent parent s))))"
  using assms by (auto simp: HandleNewTipSet_def Let_def split: sum.splits list.splits prod.splits)

text \<open>
  C7, at the failing input. The current head is at height \<open>2^64 - 600\<close> and an
  untrusted peer declares a head one higher. The sum \<^verbatim>\<open>curHeight + 600\<close> wraps to 0 in
  \<^verbatim>\<open>uint64\<close>, so the call fails with \<^verbatim>\<open>ErrNewChainTooLong\<close> although the declared
  height is not above the current height plus 600.
\<close>

theorem HandleNewTipSet_length_limit_wraps:
  "HandleNewTipSet (exEnv [] True (\<lambda>ts. True)) \<lparr>chainStore = exStoreHigh, badTipSets = {}\<rparr>
       \<lparr>ci_Peer = 0, ci_Head = [[8]], ci_Height = 18446744073709551017\<rparr> False
     = Returns (Some ErrNewChainTooLong, \<lparr>chainStore = exStoreHigh, badTipSets = {}\<rparr>) \<and>
   GetTipSet exStoreHigh (GetHead exStoreHigh)
     = Inr (TipSet [mkBlock [7] [7] [[6]] 18446744073709551016]) \<and>
   \<not> unat (18446744073709551017 :: uint64)
       > unat (18446744073709551016 :: uint64) + UntrustedChainHeightLimit"
  by (simp add: chain_defs fixture_defs)

subsection \<open>The bad-tipset cache\<close>

text \<open>
  Two facts about all inputs. A failure of \<^verbatim>\<open>syncOne\<close> on the widened tipset is
  returned with the cache as it was. And neither the error returned nor the store left
  by \<^verbatim>\<open>HandleNewTipSet\<close> depends on what the cache holds: it is written, never read.
\<close>

lemma widenStep_failure_keeps_cache:
  "widenStep env i ts gp p s = Inl (err, s1) \<Longrightarrow> badTipSets s1 = badTipSets s"
  by (auto simp: widenStep_def split: if_splits sum.splits prod.splits option.splits)

lemma HandleNewTipSet_widened_failure:
  assumes "\<not> HasTipSetAndState (chainStore s) (ci_Head ci)"
    and "GetTipSet (chainStore s) (GetHead (chainStore s)) = Inr curHead"
    and "Height curHead = Inr curHeight"
    and "trusted \<or> \<not> ExceedsUntrustedChainLength curHeight (ci_Height ci)"
    and "FetchTipSets env (ci_Head ci) (ci_Peer ci) (fetchDone (chainStore s)) = Inr fetched"
    and "rev fetched = c0 # rest"
    and "ancestorsFromStore (chainStore s) c0 = Inr (parent, grandParent)"
    and "widen (chainStore s) c0 = Inr wts" and "Defined wts"
    and "syncOne env (chainStore s) grandParent parent wts = (Some err, st')"
  shows "HandleNewTipSet env s ci trusted = Returns (Some err, s\<lparr>chainStore := st'\<rparr>)"
  using assms by (auto simp: HandleNewTipSet_def widenStep_def)

lemma widenStep_cache_irrelevant:
  assumes "chainStore s = chainStore t"
  shows "(case (widenStep env i ts gp p s, widenStep env i ts gp p t) of
            (Inl (e, a), Inl (e', b)) \<Rightarrow> e = e' \<and> chainStore a = chainStore b
          | (Inr (w, a), Inr (w', b)) \<Rightarrow> w = w' \<and> chainStore a = chainStore b
          | _ \<Rightarrow> False)"
  using assms by (auto simp: widenStep_def split: if_splits sum.splits prod.splits option.splits)

lemma syncStep_cache_irrelevant:
  assumes "chainStore s = chainStore t"
  shows "(case (syncStep env chain i wts ts gp p s, syncStep env chain i wts ts gp p t) of
            (Inl (e, a), Inl (e', b)) \<Rightarrow> e = e' \<and> chainStore a = chainStore b
          | (Inr a, Inr b) \<Rightarrow> chainStore a = chainStore b
          | _ \<Rightarrow> False)"
  using assms by (auto simp: syncStep_def split: if_splits sum.splits prod.splits option.splits)

lemma syncLoop_cache_irrelevant:
  assumes "chainStore s = chainStore t"
  shows "fst (syncLoop env chain i rest gp p s) = fst (syncLoop env chain i rest gp p t) \<and>
         chainStore (snd (syncLoop env chain i rest gp p s))
           = chainStore (snd (syncLoop env chain i rest gp p t))"
  using assms
proof (induction rest arbitrary: i gp p s t)
  case Nil
  then show ?case by simp
next
  case (Cons ts rest)
  show ?case
    using widenStep_cache_irrelevant [OF Cons.prems, of env i ts gp p]
  proof (cases "widenStep env i ts gp p s"; cases "widenStep env i ts gp p t")
    fix a b assume a: "widenStep env i ts gp p s = Inr a" and b: "widenStep env i ts gp p t = Inr b"
    obtain w s1 where a': "a = (w, s1)" by (cases a)
    obtain w' t1 where b': "b = (w', t1)" by (cases b)
    have w: "w' = w" and c1: "chainStore s1 = chainStore t1"
      using widenStep_cache_irrelevant [OF Cons.prems, of env i ts gp p] a b a' b' by simp_all
    show ?thesis
      using syncStep_cache_irrelevant [OF c1, of env chain i w ts gp p]
    proof (cases "syncStep env chain i w ts gp p s1"; cases "syncStep env chain i w ts gp p t1")
      fix s2 t2 assume s2: "syncStep env chain i w ts gp p s1 = Inr s2"
        and t2: "syncStep env chain i w ts gp p t1 = Inr t2"
      have "chainStore s2 = chainStore t2"
        using syncStep_cache_irrelevant [OF c1, of env chain i w ts gp p] s2 t2 by simp
      from Cons.IH [OF this, of "Suc i" p ts] show ?thesis
        by (simp add: a b a' b' w s2 t2)
    qed (auto simp: a b a' b' w split: prod.splits)
  qed (auto split: prod.splits)
qed

lemma HandleNewTipSet_cache_irrelevant:
  "(case (HandleNewTipSet env (s\<lparr>badTipSets := B\<rparr>) ci trusted, HandleNewTipSet env s ci trusted) of
      (Returns (e, a), Returns (e', b)) \<Rightarrow> e = e' \<and> chainStore a = chainStore b
    | (Panics x, Panics y) \<Rightarrow> x = y
    | _ \<Rightarrow> False)"
proof -
  have c: "chainStore (s\<lparr>badTipSets := B\<rparr>) = chainStore s" by simp
  show ?thesis
    using syncLoop_cache_irrelevant [OF c]
    by (auto simp: HandleNewTipSet_def Let_def prod_eq_iff simp del: syncLoop.simps
        split: sum.splits list.splits prod.splits)
qed

text \<open>
  C2, at the failing input. The store holds a sibling of the fetched tipset, so
  \<^verbatim>\<open>widen\<close> yields the two-block tipset; the state transition rejects it. The call
  returns that error and the cache is as empty as before: \<^verbatim>\<open>chain[0:]\<close> was not added.
  When the same error comes from the tipset itself (no sibling to widen with), the key
  of the tipset is in the cache.
\<close>

theorem HandleNewTipSet_widened_failure_not_cached:
  "widen exStoreSibling (TipSet [exB1]) = Inr (TipSet [exB1, exB2]) \<and>
   HandleNewTipSet (exEnv [TipSet [exB1]] True (\<lambda>ts. Len ts < 2))
       \<lparr>chainStore = exStoreSibling, badTipSets = {}\<rparr> exChainInfo True
     = Returns (Some (ErrCollaborator 1), \<lparr>chainStore = exStoreSibling, badTipSets = {}\<rparr>) \<and>
   HandleNewTipSet (exEnv [TipSet [exB1]] True (\<lambda>ts. False))
       \<lparr>chainStore = exStore, badTipSets = {}\<rparr> exChainInfo True
     = Returns (Some (ErrCollaborator 1), \<lparr>chainStore = exStore, badTipSets = {String (TipSet [exB1])}\<rparr>)"
  by (simp add: chain_defs fixture_defs)

text \<open>
  C3, at the failing input. A first call fails on the fetched tipset and puts its key
  in the cache. A second call over the same chain, with the key in the cache, does not
  return \<^verbatim>\<open>ErrChainHasBadTipSet\<close>: it returns the state evaluator's own error, so the
  state transition ran again. And when the first failure was a message list that
  could not be loaded and the list loads the second time, the second call succeeds:
  the cached tipset is validated, stored and made the head.
\<close>

theorem HandleNewTipSet_ignores_bad_cache:
  "HandleNewTipSet (exEnv [TipSet [exB1]] True (\<lambda>ts. False))
       \<lparr>chainStore = exStore, badTipSets = {}\<rparr> exChainInfo True
     = Returns (Some (ErrCollaborator 1),
         \<lparr>chainStore = exStore, badTipSets = {String (TipSet [exB1])}\<rparr>) \<and>
   HandleNewTipSet (exEnv [TipSet [exB1]] True (\<lambda>ts. False))
       \<lparr>chainStore = exStore, badTipSets = {String (TipSet [exB1])}\<rparr> exChainInfo True
     = Returns (Some (ErrCollaborator 1),
         \<lparr>chainStore = exStore, badTipSets = {String (TipSet [exB1])}\<rparr>) \<and>
   HandleNewTipSet (exEnv [TipSet [exB1]] False (\<lambda>ts. True))
       \<lparr>chainStore = exStore, badTipSets = {}\<rparr> exChainInfo True
     = Returns (Some (ErrLoadingMessages (ErrCollaborator 2)),
         \<lparr>chainStore = exStore, badTipSets = {String (TipSet [exB1])}\<rparr>) \<and>
   (\<exists>st'. HandleNewTipSet (exEnv [TipSet [exB1]] True (\<lambda>ts. True))
       \<lparr>chainStore = exStore, badTipSets = {String (TipSet [exB1])}\<rparr> exChainInfo True
     = Returns (None, \<lparr>chainStore = st', badTipSets = {String (TipSet [exB1])}\<rparr>) \<and>
     HasTipSetAndState st' (Key (TipSet [exB1])) \<and> GetHead st' = Key (TipSet [exB1]))"
  by (simp add: chain_defs fixture_defs)

subsection \<open>What a successful call leaves in the store\<close>

lemma find_app: "find P (xs @ ys) = (case find P xs of None \<Rightarrow> find P ys | Some x \<Rightarrow> Some x)"
  by (induction xs) auto

lemma extends_refl: "extends st st"
  by (simp add: extends_def)

lemma extends_trans: "extends a b \<Longrightarrow> extends b c \<Longrightarrow> extends a c"
  by (auto simp: extends_def)

lemma extends_lookup: "extends st st' \<Longrightarrow> lookupKey st k = Some e \<Longrightarrow> lookupKey st' k = Some e"
  by (auto simp: extends_def lookupKey_def find_app)

lemma extends_GetTipSet: "extends st st' \<Longrightarrow> GetTipSet st k = Inr ts \<Longrightarrow> GetTipSet st' k = Inr ts"
  by (auto simp: GetTipSet_def split: option.splits dest: extends_lookup)

lemma extends_GetTipSetStateRoot:
  "extends st st' \<Longrightarrow> GetTipSetStateRoot st k = Inr r \<Longrightarrow> GetTipSetStateRoot st' k = Inr r"
  by (auto simp: GetTipSetStateRoot_def split: option.splits dest: extends_lookup)

lemma extends_Has: "extends st st' \<Longrightarrow> HasTipSetAndState st k \<Longrightarrow> HasTipSetAndState st' k"
  by (auto simp: HasTipSetAndState_def dest: extends_lookup)

lemma Has_iff_StateRoot: "HasTipSetAndState st k \<longleftrightarrow> (\<exists>root. GetTipSetStateRoot st k = Inr root)"
  by (auto simp: HasTipSetAndState_def GetTipSetStateRoot_def split: option.splits)

lemma Has_iff_GetTipSet: "HasTipSetAndState st k \<longleftrightarrow> (\<exists>ts. GetTipSet st k = Inr ts)"
  by (auto simp: HasTipSetAndState_def GetTipSet_def split: option.splits)

lemma Put_props:
  assumes "PutTipSetAndState tsas st = Inr st1"
  shows "extends st st1" and "HasTipSetAndState st1 (Key (tsas_TipSet tsas))" and "GetHead st1 = GetHead st"
  using assms
  by (auto simp: PutTipSetAndState_def extends_def HasTipSetAndState_def lookupKey_def GetHead_def
      find_app split: if_splits option.splits)

lemma SetHead_props:
  assumes "SetHead ts st1 = Inr st2"
  shows "st_tsas st2 = st_tsas st1" and "GetHead st2 = Key ts" and "HasTipSetAndState st2 (Key ts)"
  using assms
  by (auto simp: SetHead_def GetHead_def HasTipSetAndState_def lookupKey_def split: if_splits)

lemma syncOneSelect_extends: "syncOneSelect env st1 k parent next = (r, st') \<Longrightarrow> st_tsas st' = st_tsas st1"
  by (auto simp: syncOneSelect_def SetHead_def split: sum.splits if_splits)

lemma syncOne_extends: "syncOne env st gp parent next = (r, st') \<Longrightarrow> extends st st'"
  by (auto simp: syncOne_def Let_def extends_def split: sum.splits if_splits
      dest!: syncOneSelect_extends Put_props(1))

lemma syncOneSelect_head:
  assumes "syncOneSelect env st1 k parent next = (None, st')" and "extends st' stF"
  shows "GetHead st' = (if heavierThanHead env stF k parent next then Key next else GetHead st1)"
proof -
  have e1: "extends st1 stF"
    using assms syncOneSelect_extends [OF assms(1)] by (simp add: extends_def)
  from assms(1) obtain nps headTs hpk hps heavier where
    a: "GetTipSetStateRoot st1 (Key parent) = Inr nps" and
    b: "GetTipSet st1 k = Inr headTs" and
    c: "Parents headTs = Inr hpk" and
    d: "(if hpk \<noteq> [] then GetTipSetStateRoot st1 hpk else Inr cid_Undef) = Inr hps" and
    e: "IsHeavier env next headTs nps hps = Inr heavier" and
    f: "if heavier then SetHead next st1 = Inr st' else st' = st1"
    by (auto simp: syncOneSelect_def split: sum.splits if_splits)
  have a': "GetTipSetStateRoot stF (Key parent) = Inr nps"
    using extends_GetTipSetStateRoot [OF e1 a] .
  have b': "GetTipSet stF k = Inr headTs"
    using extends_GetTipSet [OF e1 b] .
  have d': "(if hpk \<noteq> [] then GetTipSetStateRoot stF hpk else Inr cid_Undef) = Inr hps"
    using d extends_GetTipSetStateRoot [OF e1] by (auto split: if_splits)
  have h: "heavierThanHead env stF k parent next = heavier"
    unfolding heavierThanHead_def using e by (simp add: a' b' c d' del: if_split cong: if_cong)
  show ?thesis
    using f h SetHead_props(2) by (auto split: if_splits)
qed

lemma syncOne_head:
  assumes "syncOne env st gp parent next = (None, st')" and "extends st' stF"
  shows "GetHead st' =
     (if GetHead st \<noteq> Key next \<and> heavierThanHead env stF (GetHead st) parent next then Key next
      else GetHead st)"
proof (cases "GetHead st = Key next")
  case True
  then show ?thesis using assms(1) by (simp add: syncOne_def Let_def)
next
  case False
  from assms(1) False obtain root st1 where
    p: "PutTipSetAndState \<lparr>tsas_TipSet = next, tsas_TipSetStateRoot = root\<rparr> st = Inr st1" and
    s: "syncOneSelect env st1 (GetHead st) parent next = (None, st')"
    by (auto simp: syncOne_def Let_def split: sum.splits)
  show ?thesis
    using syncOneSelect_head [OF s assms(2)] Put_props(3) [OF p] False by simp
qed

lemma syncOne_stored:
  assumes "syncOne env st gp parent next = (None, st')" and "HasTipSetAndState st (GetHead st)"
  shows "HasTipSetAndState st' (Key next)" and "HasTipSetAndState st' (GetHead st')"
proof -
  have ext: "extends st st'" using assms(1) by (rule syncOne_extends)
  show "HasTipSetAndState st' (Key next)"
  proof (cases "GetHead st = Key next")
    case True
    then show ?thesis using assms extends_Has [OF ext] by (simp add: syncOne_def Let_def)
  next
    case False
    from assms(1) False obtain root st1 where
      p: "PutTipSetAndState \<lparr>tsas_TipSet = next, tsas_TipSetStateRoot = root\<rparr> st = Inr st1" and
      s: "syncOneSelect env st1 (GetHead st) parent next = (None, st')"
      by (auto simp: syncOne_def Let_def split: sum.splits)
    have "extends st1 st'" using syncOneSelect_extends [OF s] by (simp add: extends_def)
    then show ?thesis using Put_props(2) [OF p] extends_Has by fastforce
  qed
  then show "HasTipSetAndState st' (GetHead st')"
    using syncOne_head [OF assms(1) extends_refl] assms(2) extends_Has [OF ext]
    by (auto split: if_splits)
qed

lemma widenStep_later: "0 < i \<Longrightarrow> widenStep env i ts gp p s = Inr (UndefTipSet, s)"
  by (simp add: widenStep_def)

lemma syncStep_synced:
  assumes "syncStep env chain i wts ts gp p s = Inr s2" and "\<not> Defined wts \<or> length chain > 1"
  shows "\<exists>st2. syncOne env (chainStore s) gp p ts = (None, st2) \<and> s2 = s\<lparr>chainStore := st2\<rparr>"
  using assms by (auto simp: syncStep_def split: prod.splits option.splits)

lemma syncStep_skipped:
  assumes "syncStep env chain i wts ts gp p s = Inr s2" and "\<not> (\<not> Defined wts \<or> length chain > 1)"
  shows "s2 = s"
  using assms by (auto simp: syncStep_def)

lemma syncLoop_later:
  assumes "syncLoop env chain i rest gp p s = (None, s')" and "0 < i"
    and "HasTipSetAndState (chainStore s) (GetHead (chainStore s))"
  shows "extends (chainStore s) (chainStore s') \<and>
         HasTipSetAndState (chainStore s') (GetHead (chainStore s')) \<and>
         list_all (\<lambda>ts. HasTipSetAndState (chainStore s') (Key ts)) rest \<and>
         (\<forall>stF. extends (chainStore s') stF \<longrightarrow>
            GetHead (chainStore s') = chooseHead env stF (GetHead (chainStore s)) (withParents p rest))"
  using assms
proof (induction rest arbitrary: i gp p s)
  case Nil
  then show ?case by (simp add: extends_refl)
next
  case (Cons ts rest)
  have ws: "widenStep env i ts gp p s = Inr (UndefTipSet, s)"
    using Cons.prems(2) by (rule widenStep_later)
  from Cons.prems(1) obtain s2 where
    st: "syncStep env chain i UndefTipSet ts gp p s = Inr s2" and
    lp: "syncLoop env chain (Suc i) rest p ts s2 = (None, s')"
    by (auto simp: ws split: sum.splits prod.splits)
  have "\<not> Defined UndefTipSet"
    by (simp add: Defined_def UndefTipSet_def)
  then obtain st2 where
    so: "syncOne env (chainStore s) gp p ts = (None, st2)" and s2: "s2 = s\<lparr>chainStore := st2\<rparr>"
    using syncStep_synced [OF st] by blast
  have c2: "chainStore s2 = st2" by (simp add: s2)
  have e1: "extends (chainStore s) st2" using so by (rule syncOne_extends)
  have h2: "HasTipSetAndState st2 (GetHead st2)" and k2: "HasTipSetAndState st2 (Key ts)"
    using syncOne_stored [OF so Cons.prems(3)] by simp_all
  have ih: "extends st2 (chainStore s') \<and>
         HasTipSetAndState (chainStore s') (GetHead (chainStore s')) \<and>
         list_all (\<lambda>ts. HasTipSetAndState (chainStore s') (Key ts)) rest \<and>
         (\<forall>stF. extends (chainStore s') stF \<longrightarrow>
            GetHead (chainStore s') = chooseHead env stF (GetHead st2) (withParents ts rest))"
    using Cons.IH [OF lp] h2 by (simp add: c2)
  have e2: "extends st2 (chainStore s')" using ih by blast
  have "extends (chainStore s) (chainStore s')"
    using e1 e2 by (rule extends_trans)
  moreover have "HasTipSetAndState (chainStore s') (Key ts)"
    using extends_Has [OF e2 k2] .
  moreover have "\<forall>stF. extends (chainStore s') stF \<longrightarrow>
       GetHead (chainStore s') = chooseHead env stF (GetHead (chainStore s)) (withParents p (ts # rest))"
  proof (intro allI impI)
    fix stF assume f: "extends (chainStore s') stF"
    have "extends st2 stF" using e2 f by (rule extends_trans)
    then have "GetHead st2 =
       (if GetHead (chainStore s) \<noteq> Key ts \<and> heavierThanHead env stF (GetHead (chainStore s)) p ts
        then Key ts else GetHead (chainStore s))"
      using syncOne_head [OF so] by blast
    then show "GetHead (chainStore s') = chooseHead env stF (GetHead (chainStore s)) (withParents p (ts # rest))"
      using ih f by simp
  qed
  ultimately show ?case using ih by simp
qed

lemma chooseHead_append:
  "chooseHead env st h (xs @ ys) = chooseHead env st (chooseHead env st h xs) ys"
  by (induction xs arbitrary: h) auto

lemma storedWithRoot_Has: "storedWithRoot st ts = HasTipSetAndState st (Key ts)"
  using Has_iff_StateRoot by (auto simp: storedWithRoot_def)

lemma list_all_withParents:
  "list_all (\<lambda>pt. P (snd pt)) (withParents p rest) = list_all P rest"
  by (induction rest arbitrary: p) auto

text \<open>
  C1, as stated, fails. The store holds a sibling of the one fetched tipset, so the
  tipset is widened; the chain has exactly one tipset, so the call syncs the widened
  tipset only and returns success. The fetched tipset itself is not in the store.
\<close>

theorem HandleNewTipSet_skips_widened_original:
  "\<exists>s'. HandleNewTipSet (exEnv [TipSet [exB1]] True (\<lambda>ts. True))
            \<lparr>chainStore = exStoreSibling, badTipSets = {}\<rparr> exChainInfo True = Returns (None, s') \<and>
         FetchTipSets (exEnv [TipSet [exB1]] True (\<lambda>ts. True)) (ci_Head exChainInfo)
            (ci_Peer exChainInfo) (fetchDone exStoreSibling) = Inr [TipSet [exB1]] \<and>
         widen exStoreSibling (TipSet [exB1]) = Inr (TipSet [exB1, exB2]) \<and>
         HasTipSetAndState (chainStore s') (Key (TipSet [exB1, exB2])) \<and>
         \<not> HasTipSetAndState (chainStore s') (Key (TipSet [exB1]))"
  by (simp add: chain_defs fixture_defs)

text \<open>
  C1, as amended. After a call to \<^verbatim>\<open>HandleNewTipSet\<close> that fetched a chain and
  returned success, every tipset the call synced is in the store with a state root:
  the widened tipset when \<^verbatim>\<open>widen\<close> yields one, and every tipset of the fetched chain
  except the only tipset of a one-tipset chain that was widened. The head is in the
  store, and it is the tipset chosen by comparing the synced tipsets in turn with the
  head so far by \<^verbatim>\<open>ChainSelector.IsHeavier\<close>, starting from the prior head.
\<close>

theorem HandleNewTipSet_success_stores_synced:
  assumes ok: "HandleNewTipSet env s ci trusted = Returns (None, s')"
    and new: "\<not> HasTipSetAndState (chainStore s) (ci_Head ci)"
    and fetch: "FetchTipSets env (ci_Head ci) (ci_Peer ci) (fetchDone (chainStore s)) = Inr fetched"
  shows "\<exists>c0 rest parent grandParent wts.
           rev fetched = c0 # rest \<and>
           ancestorsFromStore (chainStore s) c0 = Inr (parent, grandParent) \<and>
           widen (chainStore s) c0 = Inr wts \<and>
           list_all (\<lambda>pt. storedWithRoot (chainStore s') (snd pt)) (syncedTipSets parent c0 rest wts) \<and>
           GetHead (chainStore s') =
             chooseHead env (chainStore s') (GetHead (chainStore s)) (syncedTipSets parent c0 rest wts) \<and>
           HasTipSetAndState (chainStore s') (GetHead (chainStore s'))"
proof -
  let ?st = "chainStore s"
  let ?F = "chainStore s'"
  from ok new fetch obtain curHead c0 rest parent gp where
    hd: "GetTipSet ?st (GetHead ?st) = Inr curHead" and
    rv: "rev fetched = c0 # rest" and
    an: "ancestorsFromStore ?st c0 = Inr (parent, gp)" and
    lp: "syncLoop env (c0 # rest) 0 (c0 # rest) gp parent s = (None, s')"
    by (auto simp: HandleNewTipSet_def Let_def split: sum.splits list.splits prod.splits if_splits)
  have h0: "HasTipSetAndState ?st (GetHead ?st)"
    using hd Has_iff_GetTipSet by blast
  from lp obtain wts s1 s2 where
    ws: "widenStep env 0 c0 gp parent s = Inr (wts, s1)" and
    ss: "syncStep env (c0 # rest) 0 wts c0 gp parent s1 = Inr s2" and
    l2: "syncLoop env (c0 # rest) (Suc 0) rest parent c0 s2 = (None, s')"
    by (auto split: sum.splits prod.splits)
  have wd: "widen ?st c0 = Inr wts"
    using ws by (auto simp: widenStep_def split: sum.splits if_splits prod.splits option.splits)
  let ?w = "if Defined wts then [(parent, wts)] else []"
  let ?c = "if Defined wts \<and> rest = [] then [] else [(parent, c0)]"
  \<comment> \<open>the widened tipset\<close>
  have stage1: "extends ?st (chainStore s1) \<and>
      HasTipSetAndState (chainStore s1) (GetHead (chainStore s1)) \<and>
      list_all (\<lambda>pt. HasTipSetAndState (chainStore s1) (Key (snd pt))) ?w \<and>
      (\<forall>stF. extends (chainStore s1) stF \<longrightarrow>
         GetHead (chainStore s1) = chooseHead env stF (GetHead ?st) ?w)"
  proof (cases "Defined wts")
    case True
    then obtain st1 where so: "syncOne env ?st gp parent wts = (None, st1)"
      and s1: "s1 = s\<lparr>chainStore := st1\<rparr>"
      using ws wd by (auto simp: widenStep_def split: sum.splits if_splits prod.splits option.splits)
    have c1: "chainStore s1 = st1" by (simp add: s1)
    show ?thesis
      unfolding c1 using True syncOne_extends [OF so] syncOne_stored [OF so h0] syncOne_head [OF so]
      by simp
  next
    case False
    then have "s1 = s"
      using ws wd by (auto simp: widenStep_def split: sum.splits if_splits prod.splits option.splits)
    then show ?thesis using False h0 by (simp add: extends_refl)
  qed
  \<comment> \<open>the tipset itself\<close>
  have stage2: "extends (chainStore s1) (chainStore s2) \<and>
      HasTipSetAndState (chainStore s2) (GetHead (chainStore s2)) \<and>
      list_all (\<lambda>pt. HasTipSetAndState (chainStore s2) (Key (snd pt))) ?c \<and>
      (\<forall>stF. extends (chainStore s2) stF \<longrightarrow>
         GetHead (chainStore s2) = chooseHead env stF (GetHead (chainStore s1)) ?c)"
  proof (cases "Defined wts \<and> rest = []")
    case True
    then have "s2 = s1"
      using syncStep_skipped [OF ss] by simp
    then show ?thesis using True stage1 by (simp add: extends_refl)
  next
    case False
    then have "\<not> Defined wts \<or> length (c0 # rest) > 1" by auto
    then obtain st2 where so: "syncOne env (chainStore s1) gp parent c0 = (None, st2)"
      and s2: "s2 = s1\<lparr>chainStore := st2\<rparr>"
      using syncStep_synced [OF ss] by blast
    have c2: "chainStore s2 = st2" by (simp add: s2)
    have h1: "HasTipSetAndState (chainStore s1) (GetHead (chainStore s1))"
      using stage1 by blast
    have cc: "?c = [(parent, c0)]"
      using False by auto
    show ?thesis
      unfolding c2 cc using syncOne_extends [OF so] syncOne_stored [OF so h1] syncOne_head [OF so]
      by simp
  qed
  \<comment> \<open>the rest of the chain\<close>
  have h2: "HasTipSetAndState (chainStore s2) (GetHead (chainStore s2))"
    using stage2 by blast
  have stage3: "extends (chainStore s2) ?F \<and>
      HasTipSetAndState ?F (GetHead ?F) \<and>
      list_all (\<lambda>ts. HasTipSetAndState ?F (Key ts)) rest \<and>
      (\<forall>stF. extends ?F stF \<longrightarrow>
         GetHead ?F = chooseHead env stF (GetHead (chainStore s2)) (withParents c0 rest))"
    using syncLoop_later [OF l2 _ h2] by simp
  have e2F: "extends (chainStore s2) ?F" using stage3 by blast
  have e1F: "extends (chainStore s1) ?F" using stage2 e2F extends_trans by blast
  have syn: "syncedTipSets parent c0 rest wts = ?w @ ?c @ withParents c0 rest"
    by (simp add: syncedTipSets_def)
  have all1: "list_all (\<lambda>pt. HasTipSetAndState ?F (Key (snd pt))) ?w"
    using stage1 extends_Has [OF e1F] by (auto split: if_splits)
  have all2: "list_all (\<lambda>pt. HasTipSetAndState ?F (Key (snd pt))) ?c"
    using stage2 extends_Has [OF e2F] by (auto split: if_splits)
  have all3: "list_all (\<lambda>pt. HasTipSetAndState ?F (Key (snd pt))) (withParents c0 rest)"
    using stage3 list_all_withParents [of "\<lambda>ts. HasTipSetAndState ?F (Key ts)" c0 rest] by simp
  have stored: "list_all (\<lambda>pt. storedWithRoot ?F (snd pt)) (syncedTipSets parent c0 rest wts)"
    unfolding syn storedWithRoot_Has using all1 all2 all3 by (simp only: list_all_append simp_thms)
  have hd1: "GetHead (chainStore s1) = chooseHead env ?F (GetHead ?st) ?w"
    using stage1 e1F by blast
  have hd2: "GetHead (chainStore s2) = chooseHead env ?F (GetHead (chainStore s1)) ?c"
    using stage2 e2F by blast
  have hd3: "GetHead ?F = chooseHead env ?F (GetHead (chainStore s2)) (withParents c0 rest)"
    using stage3 extends_refl by blast
  have head: "GetHead ?F = chooseHead env ?F (GetHead ?st) (syncedTipSets parent c0 rest wts)"
    unfolding syn chooseHead_append using hd1 hd2 hd3 by simp
  show ?thesis
    using rv an wd stored head stage3 by blast
qed

theorem HandleNewTipSet_success_stores_synced_witness:
  "\<exists>s'. HandleNewTipSet (exEnv [TipSet [exB4], TipSet [exB1]] True (\<lambda>ts. True))
            \<lparr>chainStore = exStoreSibling, badTipSets = {}\<rparr> exChainInfo2 True = Returns (None, s') \<and>
         storedWithRoot (chainStore s') (TipSet [exB1, exB2]) \<and>
         storedWithRoot (chainStore s') (TipSet [exB1]) \<and>
         storedWithRoot (chainStore s') (TipSet [exB4]) \<and>
         HasTipSetAndState (chainStore s') (GetHead (chainStore s'))"
proof -
  let ?E = "exEnv [TipSet [exB4], TipSet [exB1]] True (\<lambda>ts. True)"
  let ?S = "\<lparr>chainStore = exStoreSibling, badTipSets = {}\<rparr>"
  have "\<exists>s'. HandleNewTipSet ?E ?S exChainInfo2 True = Returns (None, s')"
    by (simp add: chain_defs fixture_defs)
  then obtain s' where ok: "HandleNewTipSet ?E ?S exChainInfo2 True = Returns (None, s')"
    by blast
  have new: "\<not> HasTipSetAndState (chainStore ?S) (ci_Head exChainInfo2)"
    by (simp add: chain_defs fixture_defs)
  have fetch: "FetchTipSets ?E (ci_Head exChainInfo2) (ci_Peer exChainInfo2) (fetchDone (chainStore ?S))
      = Inr [TipSet [exB4], TipSet [exB1]]"
    by (simp add: exEnv_def)
  from HandleNewTipSet_success_stores_synced [OF ok new fetch]
  obtain c0 rest parent gp wts where
    rv: "rev [TipSet [exB4], TipSet [exB1]] = c0 # rest" and
    wd: "widen (chainStore ?S) c0 = Inr wts" and
    stored: "list_all (\<lambda>pt. storedWithRoot (chainStore s') (snd pt)) (syncedTipSets parent c0 rest wts)" and
    hd: "HasTipSetAndState (chainStore s') (GetHead (chainStore s'))"
    by blast
  have c0: "c0 = TipSet [exB1]" and rest: "rest = [TipSet [exB4]]"
    using rv by simp_all
  have w: "wts = TipSet [exB1, exB2]"
    using wd unfolding c0 by (simp add: chain_defs fixture_defs)
  show ?thesis
    using ok stored hd unfolding c0 rest w by (auto simp: syncedTipSets_def Defined_def)
qed

section \<open>Properties of the message queue policy\<close>

lemmas policy_defs =
  HandleNewHead_def expireOld_def maxHeight_def heightOf_def Height_def ExpireBefore_def
  removeMined_def RemoveNext_def errorText_def exPolicy_def exQueue_def exMsg_def qm_def
  NewQueue_def mkBlock_def Let_def

lemmas sibling_defs = exSiblingA_def exSiblingB_def exSiblingPolicy_def exQueue2_def

subsection \<open>The tests of the source, on the model\<close>

lemma test_old_block_does_nothing:
  "HandleNewHead (exPolicy []) (exQueue 200) [] [TipSet [mkBlock [5] [5] [[4]] 1]] = Inr (exQueue 200)"
  by (simp add: policy_defs word_le_nat_alt)

lemma test_chain_truncation_does_nothing:
  "HandleNewHead (exPolicy []) (exQueue 200) [TipSet [mkBlock [5] [5] [[4]] 1]] [] = Inr (exQueue 200)"
  by (simp add: policy_defs)

lemma test_expires_old_messages:
  "\<exists>q'. HandleNewHead (exPolicy []) (exQueue 200) [] [TipSet [mkBlock [5] [5] [[4]] 110]] = Inr q' \<and>
        q' ''alice'' = exQueue 200 ''alice'' \<and> q' ''bob'' = exQueue 200 ''bob''"
  "\<exists>q'. HandleNewHead (exPolicy []) (exQueue 200) [] [TipSet [mkBlock [6] [6] [[5]] 111]] = Inr q' \<and>
        q' ''alice'' = [] \<and> q' ''bob'' = [qm (exMsg ''bob'' 1) 200]"
  by (simp_all add: policy_defs)

lemma test_removes_mined_messages:
  "\<exists>q'. HandleNewHead (exPolicy [([5, 1], [exMsg ''alice'' 1])]) (exQueue 100) []
           [TipSet [mkBlock [5] [5] [[4]] 104]] = Inr q' \<and>
        q' ''alice'' = [qm (exMsg ''alice'' 2) 101, qm (exMsg ''alice'' 3) 102] \<and>
        q' ''bob'' = [qm (exMsg ''bob'' 1) 100]"
  by (simp add: policy_defs)

lemma test_fails_out_of_nonce_order:
  "\<exists>err. HandleNewHead (exPolicy [([5, 1], [exMsg ''alice'' 2])]) (exQueue 200) []
           [TipSet [mkBlock [5] [5] [[4]] 101]] = Inl err \<and>
         Contains (errorText err) ''nonce 1, expected 2''"
  by (simp add: policy_defs decimal.simps digit_def)

subsection \<open>Expiry\<close>

lemma foldl_max_zero:
  fixes a :: uint64
  shows "list_all (\<lambda>ts. heightOf ts = 0) chain \<Longrightarrow> foldl max a (map heightOf chain) = a"
  by (induction chain arbitrary: a) (simp_all add: max_def)

lemma maxHeight_all_zero: "list_all (\<lambda>ts. heightOf ts = 0) chain \<Longrightarrow> maxHeight chain = 0"
  by (simp add: maxHeight_def foldl_max_zero)

lemma ExpireBefore_none_older: "list_all (\<lambda>e. \<not> q_Stamp e < thr) (ExpireBefore thr q sender)"
  by (simp add: ExpireBefore_def list_all_iff list_ex_iff)

lemma ExpireBefore_keeps:
  "list_all (\<lambda>e. \<not> q_Stamp e < thr) (q sender) \<Longrightarrow> ExpireBefore thr q sender = q sender"
  by (auto simp: ExpireBefore_def list_all_iff list_ex_iff)

lemma older_word_int:
  fixes stamp h w :: uint64
  assumes "w \<le> h"
  shows "stamp < h - w \<longleftrightarrow> uint stamp < uint h - uint w"
proof -
  have "uint w \<le> uint h"
    using assms by (simp add: word_le_def)
  then have "uint (h - w) = uint h - uint w"
    by (simp add: uint_sub_lem)
  then show ?thesis
    by (simp add: word_less_def)
qed

lemma ExpireBefore_sender:
  "ExpireBefore thr q sender =
     (if list_all (\<lambda>e. \<not> q_Stamp e < thr) (q sender) then q sender else [])"
  by (auto simp: ExpireBefore_def list_all_iff list_ex_iff)

text \<open>
  C4, as stated, fails: in the test \<^verbatim>\<open>expires old messages\<close> the window is 10 and the
  new head is at height 110, and alice's entry of stamp 100, which is exactly
  \<open>110 - 10\<close>, is still in her queue afterwards.
\<close>

theorem HandleNewHead_keeps_stamp_at_threshold:
  "\<exists>q'. HandleNewHead (exPolicy []) (exQueue 200) [] [TipSet [mkBlock [5] [5] [[4]] 110]] = Inr q' \<and>
        maxHeight [TipSet [mkBlock [5] [5] [[4]] 110]] = 110 \<and>
        pol_maxAge (exPolicy []) = 10 \<and>
        list_ex (\<lambda>e. q_Stamp e = 100 \<and> unat (q_Stamp e) \<le> 110 - 10) (q' ''alice'')"
  by (simp add: policy_defs)

text \<open>
  C4, as amended. After a call of \<^verbatim>\<open>HandleNewHead\<close> that returns success on a
  non-empty new chain whose largest height is \<open>h\<close>, no entry with a stamp strictly
  below \<open>h - expiry_window\<close> remains in any sender's queue. An entry whose stamp is
  exactly \<open>h - expiry_window\<close> is not expired. When every tipset of the new chain is
  at height 0 the queue is as it was. Otherwise, with \<open>q1\<close> the queue the removal of
  the mined messages leaves, a sender none of whose entries in \<open>q1\<close> is below the
  threshold has exactly those entries afterwards, and any other sender has none.
\<close>

theorem HandleNewHead_expires_older_than_window:
  assumes "HandleNewHead pol q oldChain newChain = Inr q'" and "newChain \<noteq> []"
  shows "list_all (\<lambda>e. \<not> uint (q_Stamp e)
                         < uint (maxHeight newChain) - uint (pol_maxAge pol)) (q' sender) \<and>
         (if list_all (\<lambda>ts. heightOf ts = 0) newChain then q' = q
          else \<exists>q1. removeTipSets pol newChain q = Inr q1 \<and>
                 q' sender =
                   (if list_all (\<lambda>e. \<not> uint (q_Stamp e)
                          < uint (maxHeight newChain) - uint (pol_maxAge pol)) (q1 sender)
                    then q1 sender else []))"
proof (cases "list_all (\<lambda>ts. heightOf ts = 0) newChain")
  case True
  then have "maxHeight newChain = 0" by (rule maxHeight_all_zero)
  moreover have "q' = q" using assms True by (simp add: HandleNewHead_def)
  moreover have "\<not> uint (q_Stamp e) < 0 - uint (pol_maxAge pol)" for e :: Queued
  proof -
    have "0 \<le> uint (q_Stamp e)" and "0 \<le> uint (pol_maxAge pol)" by simp_all
    then show ?thesis by linarith
  qed
  ultimately show ?thesis using True by (auto simp: list_all_iff)
next
  case False
  then obtain q1 where r: "removeTipSets pol newChain q = Inr q1"
    and q': "q' = expireOld pol newChain q1"
    using assms by (auto simp: HandleNewHead_def split: sum.splits)
  let ?keep = "\<lambda>e. \<not> uint (q_Stamp e) < uint (maxHeight newChain) - uint (pol_maxAge pol)"
  have s: "q' sender = (if list_all ?keep (q1 sender) then q1 sender else [])"
  proof (cases "pol_maxAge pol \<le> maxHeight newChain")
    case True
    let ?thr = "maxHeight newChain - pol_maxAge pol"
    have e: "q' = ExpireBefore ?thr q1"
      using q' True by (simp add: expireOld_def Let_def)
    have o: "\<And>stamp. stamp < ?thr \<longleftrightarrow>
        uint stamp < uint (maxHeight newChain) - uint (pol_maxAge pol)"
      using older_word_int [OF True] .
    show ?thesis
      unfolding e using ExpireBefore_sender [of ?thr q1 sender] unfolding o .
  next
    case False
    then have "uint (maxHeight newChain) < uint (pol_maxAge pol)"
      by (simp add: word_le_def)
    then have "?keep e" for e :: Queued
      using uint_ge_0 [of "q_Stamp e"] by linarith
    then have "list_all ?keep (q1 sender)"
      by (simp add: list_all_iff)
    moreover have "q' = q1" using q' False by (simp add: expireOld_def Let_def)
    ultimately show ?thesis by simp
  qed
  have "list_all ?keep (q' sender)"
    unfolding s by simp
  then show ?thesis using False r s by auto
qed

theorem HandleNewHead_expires_older_than_window_witness:
  "(\<exists>q'. HandleNewHead (exPolicy []) (exQueue 200) [] [TipSet [mkBlock [6] [6] [[5]] 111]] = Inr q' \<and>
         q' ''alice'' = [] \<and> q' ''bob'' = exQueue 200 ''bob'') \<and>
   (\<exists>q'. HandleNewHead (exPolicy [([5, 1], [exMsg ''alice'' 1])]) exQueueOld []
           [TipSet [mkBlock [5] [5] [[4]] 110]] = Inr q' \<and>
         q' ''alice'' = [qm (exMsg ''alice'' 2) 100])"
proof -
  let ?C = "[TipSet [mkBlock [6] [6] [[5]] 111]]"
  let ?D = "[TipSet [mkBlock [5] [5] [[4]] 110]]"
  let ?P = "exPolicy [([5, 1], [exMsg ''alice'' 1])]"
  have "\<exists>q'. HandleNewHead (exPolicy []) (exQueue 200) [] ?C = Inr q'"
    by (simp add: policy_defs)
  then obtain q' where ok: "HandleNewHead (exPolicy []) (exQueue 200) [] ?C = Inr q'"
    by blast
  have "\<exists>q'. HandleNewHead ?P exQueueOld [] ?D = Inr q'"
    by (simp add: policy_defs exQueueOld_def)
  then obtain p' where ok2: "HandleNewHead ?P exQueueOld [] ?D = Inr p'"
    by blast
  have ne: "?C \<noteq> []" and ne2: "?D \<noteq> []"
    by simp_all
  have nz: "\<not> list_all (\<lambda>ts. heightOf ts = 0) ?C" "\<not> list_all (\<lambda>ts. heightOf ts = 0) ?D"
    by (simp_all add: policy_defs)
  have thr: "uint (maxHeight ?C) - uint (pol_maxAge (exPolicy [])) = 101"
    "uint (maxHeight ?D) - uint (pol_maxAge ?P) = 100"
    by (simp_all add: policy_defs)
  have r: "removeTipSets (exPolicy []) ?C (exQueue 200) = Inr (exQueue 200)"
    by (simp add: policy_defs)
  have r2: "removeTipSets ?P ?D exQueueOld = Inr (exQueueOld(''alice'' := [qm (exMsg ''alice'' 2) 100]))"
    by (simp add: policy_defs exQueueOld_def)
  have a: "q' ''alice'' = []"
    using HandleNewHead_expires_older_than_window [OF ok ne, of "''alice''"] nz(1) r
    unfolding thr by (simp add: policy_defs)
  have b: "q' ''bob'' = exQueue 200 ''bob''"
    using HandleNewHead_expires_older_than_window [OF ok ne, of "''bob''"] nz(1) r
    unfolding thr by (simp add: policy_defs)
  have c: "p' ''alice'' = [qm (exMsg ''alice'' 2) 100]"
    using HandleNewHead_expires_older_than_window [OF ok2 ne2, of "''alice''"] nz(2) r2
    unfolding thr by (simp add: qm_def)
  show ?thesis using ok ok2 a b c by blast
qed

subsection \<open>Mined messages and the nonce mismatch\<close>

lemma removeMessages_append:
  "removeMessages (xs @ ys) q =
     (case removeMessages xs q of Inl err \<Rightarrow> Inl err | Inr q' \<Rightarrow> removeMessages ys q')"
  by (induction xs arbitrary: q) (auto split: sum.splits)

lemma removeBlocks_flat:
  "removeBlocks pol blks q =
     removeMessages (concat (map (\<lambda>blk. pol_messages pol (blk_messages blk)) blks)) q"
  by (induction blks arbitrary: q) (auto simp: removeMessages_append split: sum.splits)

lemma removeTipSets_flat: "removeTipSets pol chain q = removeMessages (allMessages pol chain) q"
  by (induction chain arbitrary: q)
     (auto simp: allMessages_def removeMessages_append removeBlocks_flat split: sum.splits)

lemma Contains_self: "Contains s s"
  by (cases s) simp_all

text \<open>
  C6, as stated, fails on the numbers of the error text: in the test
  \<^verbatim>\<open>fails when messages out of nonce order\<close> the mined message has nonce 2 and the
  head of alice's queue has nonce 1, and the text reads \<^verbatim>\<open>nonce 1, expected 2\<close>, not
  \<^verbatim>\<open>nonce 2, expected 1\<close>.
\<close>

theorem HandleNewHead_mismatch_text_order:
  "\<exists>err. HandleNewHead (exPolicy [([5, 1], [exMsg ''alice'' 2])]) (exQueue 200) []
           [TipSet [mkBlock [5] [5] [[4]] 101]] = Inl err \<and>
         allMessages (exPolicy [([5, 1], [exMsg ''alice'' 2])]) [TipSet [mkBlock [5] [5] [[4]] 101]]
           = [exMsg ''alice'' 2] \<and>
         msg_nonce (q_Msg (hd (exQueue 200 ''alice''))) = 1 \<and>
         \<not> Contains (errorText err) ''nonce 2, expected 1'' \<and>
         Contains (errorText err) ''nonce 1, expected 2''"
  by (simp add: policy_defs allMessages_def decimal.simps digit_def)

text \<open>
  C6, as amended. For every message \<open>msg\<close> of a processed block of the new chain,
  with \<open>q1\<close> the queue as the messages before it have left it: if the queue of the
  sender is empty the message is skipped without error; if the nonce of the head of the
  queue equals the nonce of \<open>msg\<close> the head entry is removed; if it differs,
  \<^verbatim>\<open>HandleNewHead\<close> fails with \<^verbatim>\<open>NonceMismatch\<close>, whose text contains
  \<^verbatim>\<open>nonce N, expected M\<close> with \<open>N\<close> the nonce of the head of the queue and \<open>M\<close>
  the nonce of the mined message.
\<close>

theorem HandleNewHead_mined_message:
  assumes "newChain \<noteq> []" and "\<not> list_all (\<lambda>ts. heightOf ts = 0) newChain"
    and "allMessages pol newChain = before @ msg # after"
    and "removeMessages before q = Inr q1"
  shows "(q1 (msg_from msg) = [] \<longrightarrow> removeMessages (before @ [msg]) q = Inr q1) \<and>
         (\<forall>e rest. q1 (msg_from msg) = e # rest \<longrightarrow>
            (if msg_nonce (q_Msg e) = msg_nonce msg
             then removeMessages (before @ [msg]) q = Inr (q1(msg_from msg := rest))
             else HandleNewHead pol q oldChain newChain
                    = Inl (NonceMismatch (msg_nonce (q_Msg e)) (msg_nonce msg)) \<and>
                  Contains (errorText (NonceMismatch (msg_nonce (q_Msg e)) (msg_nonce msg)))
                    (''nonce '' @ decimal (unat (msg_nonce (q_Msg e))) @ '', expected '' @
                       decimal (unat (msg_nonce msg))))) \<and>
         HandleNewHead pol q oldChain newChain =
           (case removeMessages (msg # after) q1 of
              Inl err \<Rightarrow> Inl err
            | Inr q2 \<Rightarrow> Inr (expireOld pol newChain q2))"
proof -
  have h: "HandleNewHead pol q oldChain newChain =
           (case removeMessages (msg # after) q1 of
              Inl err \<Rightarrow> Inl err
            | Inr q2 \<Rightarrow> Inr (expireOld pol newChain q2))"
    using assms by (simp add: HandleNewHead_def removeTipSets_flat removeMessages_append)
  have one: "removeMessages (before @ [msg]) q = removeMined msg q1"
    using assms(4) by (simp add: removeMessages_append split: sum.splits)
  have a: "q1 (msg_from msg) = [] \<longrightarrow> removeMessages (before @ [msg]) q = Inr q1"
    unfolding one by (simp add: removeMined_def)
  have b: "\<forall>e rest. q1 (msg_from msg) = e # rest \<longrightarrow>
            (if msg_nonce (q_Msg e) = msg_nonce msg
             then removeMessages (before @ [msg]) q = Inr (q1(msg_from msg := rest))
             else HandleNewHead pol q oldChain newChain
                    = Inl (NonceMismatch (msg_nonce (q_Msg e)) (msg_nonce msg)) \<and>
                  Contains (errorText (NonceMismatch (msg_nonce (q_Msg e)) (msg_nonce msg)))
                    (''nonce '' @ decimal (unat (msg_nonce (q_Msg e))) @ '', expected '' @
                       decimal (unat (msg_nonce msg))))"
    unfolding one h
    by (auto simp: removeMined_def RemoveNext_def errorText_def Contains_self simp del: Contains.simps)
  show ?thesis using a b h by blast
qed

theorem HandleNewHead_mined_message_witness:
  "HandleNewHead (exPolicy [([5, 1], [exMsg ''alice'' 2])]) (exQueue 200) []
       [TipSet [mkBlock [5] [5] [[4]] 101]] = Inl (NonceMismatch 1 2) \<and>
   Contains (errorText (NonceMismatch 1 2)) ''nonce 1, expected 2''"
proof -
  let ?P = "exPolicy [([5, 1], [exMsg ''alice'' 2])]"
  let ?C = "[TipSet [mkBlock [5] [5] [[4]] 101]]"
  have 1: "?C \<noteq> []" by simp
  have 2: "\<not> list_all (\<lambda>ts. heightOf ts = 0) ?C"
    by (simp add: policy_defs)
  have 3: "allMessages ?P ?C = [] @ exMsg ''alice'' 2 # []"
    by (simp add: allMessages_def policy_defs)
  have 4: "removeMessages [] (exQueue 200) = Inr (exQueue 200)"
    by simp
  have q: "exQueue 200 (msg_from (exMsg ''alice'' 2))
      = qm (exMsg ''alice'' 1) 100 # [qm (exMsg ''alice'' 2) 101, qm (exMsg ''alice'' 3) 102]"
    by (simp add: policy_defs)
  have d: "decimal (Suc 0) = ''1''" "decimal 2 = ''2''"
    by (simp_all add: decimal.simps digit_def)
  from HandleNewHead_mined_message [OF 1 2 3 4, of "[]"]
  have "\<forall>e rest. exQueue 200 (msg_from (exMsg ''alice'' 2)) = e # rest \<longrightarrow>
            (if msg_nonce (q_Msg e) = msg_nonce (exMsg ''alice'' 2)
             then removeMessages ([] @ [exMsg ''alice'' 2]) (exQueue 200)
                    = Inr ((exQueue 200)(msg_from (exMsg ''alice'' 2) := rest))
             else HandleNewHead ?P (exQueue 200) [] ?C
                    = Inl (NonceMismatch (msg_nonce (q_Msg e)) (msg_nonce (exMsg ''alice'' 2))) \<and>
                  Contains (errorText (NonceMismatch (msg_nonce (q_Msg e)) (msg_nonce (exMsg ''alice'' 2))))
                    (''nonce '' @ decimal (unat (msg_nonce (q_Msg e))) @ '', expected '' @
                       decimal (unat (msg_nonce (exMsg ''alice'' 2)))))"
    by blast
  from this [rule_format, OF q] show ?thesis
    by (simp add: exMsg_def qm_def d del: Contains.simps)
qed

subsection \<open>The order of sibling blocks\<close>

lemma NewTipSet_pair:
  assumes "blk_height b1 = blk_height b2" and "blk_parents b1 = blk_parents b2"
    and "blk_parentWeight b1 = blk_parentWeight b2" and "blk_cid b1 \<noteq> blk_cid b2"
    and "blk_ticket b1 < blk_ticket b2"
  shows "NewTipSet [b1, b2] = Inr (TipSet [b1, b2])" and "NewTipSet [b2, b1] = Inr (TipSet [b1, b2])"
  using assms by (auto simp: NewTipSet_def less_eq_prod_def)

lemma HandleNewHead_two_blocks:
  assumes "blk_height b1 \<noteq> 0"
    and "pol_messages pol (blk_messages b1) = [m1]" and "pol_messages pol (blk_messages b2) = [m2]"
  shows "HandleNewHead pol q oldChain [TipSet [b1, b2]] =
           (case removeMessages [m1, m2] q of
              Inl err \<Rightarrow> Inl err
            | Inr q' \<Rightarrow> Inr (expireOld pol [TipSet [b1, b2]] q'))"
  using assms by (simp add: HandleNewHead_def heightOf_def Height_def split: sum.splits)

text \<open>
  C5. Two sibling blocks of a processed tipset each carry one message of the same
  sender, with consecutive nonces, and the sender's queue holds these two nonces at its
  head. Whatever the order the blocks are given in and whatever the order of their
  CIDs, the tipset holds them in ticket order and \<^verbatim>\<open>HandleNewHead\<close> visits them so:
  when the block with the lower nonce has the smaller ticket the call succeeds and both
  entries are removed; when the block with the higher nonce has the smaller ticket the
  call fails with \<^verbatim>\<open>NonceMismatch\<close>.
\<close>

theorem HandleNewHead_canonical_ticket_order:
  assumes sib: "blk_height b1 = blk_height b2" "blk_parents b1 = blk_parents b2"
      "blk_parentWeight b1 = blk_parentWeight b2" "blk_cid b1 \<noteq> blk_cid b2"
    and proc: "blk_height b1 \<noteq> 0"
    and msgs: "pol_messages pol (blk_messages b1) = [m1]" "pol_messages pol (blk_messages b2) = [m2]"
    and sender: "msg_from m1 = sender" "msg_from m2 = sender"
    and nonce: "msg_nonce m2 = msg_nonce m1 + 1"
    and queue: "q sender = e1 # e2 # rest" "msg_nonce (q_Msg e1) = msg_nonce m1"
      "msg_nonce (q_Msg e2) = msg_nonce m2"
    and blks: "blks = [b1, b2] \<or> blks = [b2, b1]"
  shows "(blk_ticket b1 < blk_ticket b2 \<longrightarrow>
            (\<exists>ts. NewTipSet blks = Inr ts \<and> ts_blocks ts = [b1, b2] \<and>
                  HandleNewHead pol q oldChain [ts] = Inr (expireOld pol [ts] (q(sender := rest))))) \<and>
         (blk_ticket b2 < blk_ticket b1 \<longrightarrow>
            (\<exists>ts. NewTipSet blks = Inr ts \<and> ts_blocks ts = [b2, b1] \<and>
                  HandleNewHead pol q oldChain [ts]
                    = Inl (NonceMismatch (msg_nonce m1) (msg_nonce m2))))"
proof (intro conjI impI)
  assume t: "blk_ticket b1 < blk_ticket b2"
  have n: "NewTipSet blks = Inr (TipSet [b1, b2])"
    using blks NewTipSet_pair [OF sib t] by auto
  have r: "removeMessages [m1, m2] q = Inr (q(sender := rest))"
    using sender queue by (simp add: removeMined_def RemoveNext_def)
  have "HandleNewHead pol q oldChain [TipSet [b1, b2]]
          = Inr (expireOld pol [TipSet [b1, b2]] (q(sender := rest)))"
    using HandleNewHead_two_blocks [OF proc msgs] r by simp
  then show "\<exists>ts. NewTipSet blks = Inr ts \<and> ts_blocks ts = [b1, b2] \<and>
                  HandleNewHead pol q oldChain [ts] = Inr (expireOld pol [ts] (q(sender := rest)))"
    using n by simp
next
  assume t: "blk_ticket b2 < blk_ticket b1"
  have n: "NewTipSet blks = Inr (TipSet [b2, b1])"
    using blks NewTipSet_pair [OF sib(1) [symmetric] sib(2) [symmetric] sib(3) [symmetric] _ t] sib(4)
    by auto
  have ne: "msg_nonce m1 \<noteq> msg_nonce m2"
    using nonce by simp
  have r: "removeMessages [m2, m1] q = Inl (NonceMismatch (msg_nonce m1) (msg_nonce m2))"
    using sender queue ne by (simp add: removeMined_def RemoveNext_def)
  have p2: "blk_height b2 \<noteq> 0" using proc sib(1) by simp
  have "HandleNewHead pol q oldChain [TipSet [b2, b1]]
          = Inl (NonceMismatch (msg_nonce m1) (msg_nonce m2))"
    using HandleNewHead_two_blocks [OF p2 msgs(2) msgs(1)] r by simp
  then show "\<exists>ts. NewTipSet blks = Inr ts \<and> ts_blocks ts = [b2, b1] \<and>
                  HandleNewHead pol q oldChain [ts]
                    = Inl (NonceMismatch (msg_nonce m1) (msg_nonce m2))"
    using n by simp
qed

theorem HandleNewHead_canonical_ticket_order_witness:
  "blk_cid (exSiblingB [2]) < blk_cid (exSiblingA [1]) \<and>
   (\<exists>ts. NewTipSet [exSiblingB [2], exSiblingA [1]] = Inr ts \<and>
         ts_blocks ts = [exSiblingA [1], exSiblingB [2]] \<and>
         (\<exists>q'. HandleNewHead exSiblingPolicy exQueue2 [] [ts] = Inr q' \<and> q' ''alice'' = [])) \<and>
   (\<exists>ts. NewTipSet [exSiblingA [1], exSiblingB [0]] = Inr ts \<and>
         ts_blocks ts = [exSiblingB [0], exSiblingA [1]] \<and>
         HandleNewHead exSiblingPolicy exQueue2 [] [ts] = Inl (NonceMismatch 1 2))"
proof -
  have ok: "blk_ticket (exSiblingA [1]) < blk_ticket (exSiblingB [2]) \<longrightarrow>
      (\<exists>ts. NewTipSet [exSiblingB [2], exSiblingA [1]] = Inr ts \<and>
            ts_blocks ts = [exSiblingA [1], exSiblingB [2]] \<and>
            HandleNewHead exSiblingPolicy exQueue2 [] [ts]
              = Inr (expireOld exSiblingPolicy [ts] (exQueue2(''alice'' := []))))"
    using HandleNewHead_canonical_ticket_order [of "exSiblingA [1]" "exSiblingB [2]" exSiblingPolicy
        "exMsg ''alice'' 1" "exMsg ''alice'' 2" "''alice''" exQueue2
        "qm (exMsg ''alice'' 1) 100" "qm (exMsg ''alice'' 2) 101" "[]"
        "[exSiblingB [2], exSiblingA [1]]" "[]"]
    by (simp add: sibling_defs policy_defs)
  have bad: "blk_ticket (exSiblingB [0]) < blk_ticket (exSiblingA [1]) \<longrightarrow>
      (\<exists>ts. NewTipSet [exSiblingA [1], exSiblingB [0]] = Inr ts \<and>
            ts_blocks ts = [exSiblingB [0], exSiblingA [1]] \<and>
            HandleNewHead exSiblingPolicy exQueue2 [] [ts]
              = Inl (NonceMismatch (msg_nonce (exMsg ''alice'' 1)) (msg_nonce (exMsg ''alice'' 2))))"
    using HandleNewHead_canonical_ticket_order [of "exSiblingA [1]" "exSiblingB [0]" exSiblingPolicy
        "exMsg ''alice'' 1" "exMsg ''alice'' 2" "''alice''" exQueue2
        "qm (exMsg ''alice'' 1) 100" "qm (exMsg ''alice'' 2) 101" "[]"
        "[exSiblingA [1], exSiblingB [0]]" "[]"]
    by (simp add: sibling_defs policy_defs)
  have t1: "blk_ticket (exSiblingA [1]) < blk_ticket (exSiblingB [2])"
    and t2: "blk_ticket (exSiblingB [0]) < blk_ticket (exSiblingA [1])"
    and c: "blk_cid (exSiblingB [2]) < blk_cid (exSiblingA [1])"
    by (simp_all add: sibling_defs mkBlock_def)
  have e: "\<And>ts. ts_blocks ts = [exSiblingA [1], exSiblingB [2]] \<Longrightarrow>
      expireOld exSiblingPolicy [ts] (exQueue2(''alice'' := [])) ''alice'' = []"
    by (simp add: expireOld_def ExpireBefore_def Let_def)
  show ?thesis
    using ok [rule_format, OF t1] bad [rule_format, OF t2] c e
    by (auto simp: exMsg_def)
qed

end
